theory Spec2Isabelle
  imports Complex_Main
begin

section \<open>The voice modulator (voice\_mod\_experimental.py)\<close>

text \<open>
  The three programs of the repository share one processing pipeline; the push-to-talk
  variant \<^verbatim>\<open>voice_mod_experimental.py\<close> is the one embedded here, since it
  has every feature of the other two. Samples are modelled as real numbers: a numpy
  \<^verbatim>\<open>float32\<close> array is a \<open>real list\<close>, and \<^verbatim>\<open>astype(np.float32)\<close> is the
  identity, so rounding error is outside the model. The range of a Python float is not:
  where an operation on Python floats raises because its result leaves the range
  (\<^verbatim>\<open>2.0 ** x\<close>, \<^verbatim>\<open>i / ratio\<close>, \<^verbatim>\<open>int(...)\<close> in the pitch shifter), the model
  raises too. Python integers are \<open>int\<close>. An exception is a value \<open>Inl e\<close> of a sum
  type.
\<close>

subsection \<open>Exceptions and numpy primitives\<close>

datatype error = ValueError | OverflowError | ZeroDivisionError | FloatingPointError

text \<open>
  Python slicing \<^verbatim>\<open>xs[lo:hi]\<close> of a one-dimensional array: a negative bound counts
  from the end, every bound is clamped to \<open>[0, len]\<close>, an absent bound is the start
  or the end, and an empty range gives the empty array. Slicing never raises.
\<close>

definition py_index_clamp :: "int \<Rightarrow> int \<Rightarrow> int" where
  "py_index_clamp n i = (if i < 0 then max (i + n) 0 else min i n)"

definition py_slice :: "'a list \<Rightarrow> int option \<Rightarrow> int option \<Rightarrow> 'a list" where
  "py_slice xs lo hi =
     (let n = int (length xs);
          l = (case lo of None \<Rightarrow> 0 | Some i \<Rightarrow> py_index_clamp n i);
          h = (case hi of None \<Rightarrow> n | Some i \<Rightarrow> py_index_clamp n i)
      in take (nat (h - l)) (drop (nat l) xs))"

text \<open>
  An elementwise binary operation of numpy on two one-dimensional arrays: equal lengths
  combine pointwise, an array of length one is broadcast over the other, and any other
  pair of lengths raises \<^verbatim>\<open>ValueError\<close> (operands could not be broadcast together).
\<close>

definition np_broadcast ::
  "(real \<Rightarrow> real \<Rightarrow> real) \<Rightarrow> real list \<Rightarrow> real list \<Rightarrow> error + real list" where
  "np_broadcast f xs ys =
     (if length xs = length ys then Inr (map2 f xs ys)
      else if length xs = 1 then Inr (map (f (hd xs)) ys)
      else if length ys = 1 then Inr (map (\<lambda>x. f x (hd ys)) xs)
      else Inl ValueError)"

text \<open>\<^verbatim>\<open>np.round\<close> rounds to the nearest integer, a tie going to the even neighbour.\<close>

definition np_round :: "real \<Rightarrow> real" where
  "np_round x =
     (let f = \<lfloor>x\<rfloor>; d = x - of_int f
      in if d < 1 / 2 then of_int f
         else if 1 / 2 < d then of_int (f + 1)
         else if even f then of_int f else of_int (f + 1))"

subsection \<open>Module state\<close>

definition SAMPLE_RATE :: nat where
  "SAMPLE_RATE = 48000"

definition PITCH_SHIFT :: real where
  "PITCH_SHIFT = 3.0"

text \<open>
  The module keeps its state in one-element lists (\<^verbatim>\<open>current_pitch[0]\<close>, ...); the
  record below holds the five cells.
\<close>

record state =
  current_pitch :: real
  robotic_enabled :: bool
  push_to_talk_enabled :: bool
  is_talking :: bool
  carrier_idx :: int

definition initial_state :: state where
  "initial_state =
     \<lparr>current_pitch = PITCH_SHIFT, robotic_enabled = True,
      push_to_talk_enabled = False, is_talking = False, carrier_idx = 0\<rparr>"

definition carrier_table_size :: int where
  "carrier_table_size = 4800"

definition carrier_table :: "real list" where
  "carrier_table =
     map (\<lambda>k. sin (2 * pi * 95 * real k / real SAMPLE_RATE)) [0..<nat carrier_table_size]"

subsection \<open>The robotic effect\<close>

text \<open>
  Lines 64--74 of \<^verbatim>\<open>apply_robotic_effect\<close>: the read of \<open>n\<close> carrier samples that
  starts at the cursor, as one slice when it ends inside the table and as the tail of
  the table followed by a slice of its head otherwise.
\<close>

definition carrier_segment :: "int \<Rightarrow> int \<Rightarrow> real list" where
  "carrier_segment start_idx n =
     (let end_idx = start_idx + n
      in if end_idx \<le> carrier_table_size
         then py_slice carrier_table (Some start_idx) (Some end_idx)
         else py_slice carrier_table (Some start_idx) None
              @ py_slice carrier_table None (Some (end_idx - carrier_table_size)))"

text \<open>
  Line 79: \<^verbatim>\<open>audio * carrier * intensity + audio * (1 - intensity)\<close>. Both array
  operations can raise when the lengths do not fit.
\<close>

definition ring_modulate :: "real list \<Rightarrow> real list \<Rightarrow> real \<Rightarrow> error + real list" where
  "ring_modulate audio carrier intensity =
     (case np_broadcast (*) audio carrier of
        Inl e \<Rightarrow> Inl e
      | Inr ac \<Rightarrow>
          np_broadcast (+) (map (\<lambda>v. v * intensity) ac)
            (map (\<lambda>v. v * (1 - intensity)) audio))"

text \<open>Lines 82--83: reduction to 10 bits.\<close>

definition bit_reduce :: "real list \<Rightarrow> real list" where
  "bit_reduce modulated = map (\<lambda>v. np_round (v * 2 ^ 10) / 2 ^ 10) modulated"

text \<open>Line 86: soft clipping.\<close>

definition soft_clip :: "real list \<Rightarrow> real list" where
  "soft_clip modulated = map (\<lambda>v. tanh (v * 1.2) * 0.9) modulated"

text \<open>Lines 78--88 together: what is done to the audio once the carrier is read.\<close>

definition robotic_stage :: "real list \<Rightarrow> real list \<Rightarrow> real \<Rightarrow> error + real list" where
  "robotic_stage audio carrier intensity =
     (case ring_modulate audio carrier intensity of
        Inl e \<Rightarrow> Inl e
      | Inr modulated \<Rightarrow> Inr (soft_clip (bit_reduce modulated)))"

text \<open>
  The whole function. The cursor is stored on line 76, before the arithmetic that can
  raise, so the returned state has the advanced cursor also when the result is an error.
\<close>

definition apply_robotic_effect :: "state \<Rightarrow> real list \<Rightarrow> real \<Rightarrow> state \<times> (error + real list)" where
  "apply_robotic_effect st audio intensity =
     (let start_idx = carrier_idx st;
          end_idx = start_idx + int (length audio);
          carrier = carrier_segment start_idx (int (length audio));
          st' = st\<lparr>carrier_idx := end_idx mod carrier_table_size\<rparr>
      in (st', robotic_stage audio carrier intensity))"

text \<open>A run of calls on successive blocks, each at intensity \<open>0.7\<close> as the callback does.\<close>

fun robotic_calls :: "state \<Rightarrow> real list list \<Rightarrow> state" where
  "robotic_calls st [] = st"
| "robotic_calls st (audio # rest) =
     robotic_calls (fst (apply_robotic_effect st audio 0.7)) rest"

subsection \<open>The pitch shifter\<close>

text \<open>
  \<^verbatim>\<open>np.fft.rfft\<close> of a real block of \<open>N\<close> samples: the \<open>N div 2 + 1\<close> bins
  \<open>X k = \<Sum>t<N. a t * exp (- 2 pi i k t / N)\<close>. An empty block raises \<^verbatim>\<open>ValueError\<close>.
\<close>

definition rfft :: "real list \<Rightarrow> error + complex list" where
  "rfft a =
     (if a = [] then Inl ValueError
      else Inr (map (\<lambda>k. \<Sum>t\<leftarrow>[0..<length a].
                        of_real (a ! t) * cis (- 2 * pi * real k * real t / real (length a)))
                  [0..<length a div 2 + 1]))"

text \<open>
  \<^verbatim>\<open>np.fft.irfft(a, n)\<close>: the real signal of length \<open>n\<close> whose spectrum is the
  Hermitian extension of the first \<open>n div 2 + 1\<close> bins of \<open>a\<close> (padded with zeros when
  there are fewer). The imaginary parts of bin \<open>0\<close> and, for even \<open>n\<close>, of bin
  \<open>n div 2\<close> are dropped. A length of zero raises \<^verbatim>\<open>ValueError\<close>.
\<close>

definition irfft :: "complex list \<Rightarrow> nat \<Rightarrow> error + real list" where
  "irfft a n =
     (if n = 0 then Inl ValueError
      else
        (let m = n div 2 + 1;
             b = take m (a @ replicate m 0)
         in Inr (map (\<lambda>t. (Re (b ! 0)
                           + (\<Sum>k\<leftarrow>[1..<(n + 1) div 2].
                                2 * Re (b ! k * cis (2 * pi * real k * real t / real n)))
                           + (if even n then Re (b ! (n div 2)) * (- 1) ^ t else 0))
                          / real n)
                   [0..<n])))"

text \<open>\<^verbatim>\<open>np.max\<close> raises on an empty array.\<close>

definition np_max :: "real list \<Rightarrow> error + real" where
  "np_max xs = (if xs = [] then Inl ValueError else Inr (Max (set xs)))"

text \<open>
  A real number whose magnitude is at least \<open>2 ^ 1024 - 2 ^ 970\<close> rounds to an
  infinity as a Python float (the largest float is \<open>2 ^ 1024 - 2 ^ 971\<close>).
\<close>

definition float_overflow :: "real \<Rightarrow> bool" where
  "float_overflow q \<longleftrightarrow> 2 ^ 1024 - 2 ^ 970 \<le> \<bar>q\<bar>"

text \<open>
  Python's \<^verbatim>\<open>2.0 ** x\<close>: \<^verbatim>\<open>OverflowError\<close> when the result is out of range, which
  for a float \<open>x\<close> is from \<open>x = 1024\<close> on; a result below half of the least positive
  float (\<open>2 ^ - 1074\<close>) is \<open>0.0\<close>, and no exception.
\<close>

definition py_pow2 :: "real \<Rightarrow> error + real" where
  "py_pow2 x =
     (if 1024 \<le> x then Inl OverflowError
      else if x \<le> - 1075 then Inr 0
      else Inr (2 powr x))"

text \<open>
  Python's \<^verbatim>\<open>a / b\<close> on floats: \<^verbatim>\<open>ZeroDivisionError\<close> for a zero divisor; a
  quotient out of range is an infinity (here \<open>None\<close>), and no exception.
\<close>

definition py_truediv :: "real \<Rightarrow> real \<Rightarrow> error + real option" where
  "py_truediv a b =
     (if b = 0 then Inl ZeroDivisionError
      else if float_overflow (a / b) then Inr None
      else Inr (Some (a / b)))"

text \<open>
  Python's \<^verbatim>\<open>int(x)\<close> on a float truncates towards zero; on an infinity it raises
  \<^verbatim>\<open>OverflowError\<close>.
\<close>

definition py_int :: "real option \<Rightarrow> error + int" where
  "py_int x =
     (case x of
        None \<Rightarrow> Inl OverflowError
      | Some r \<Rightarrow> Inr (if 0 \<le> r then \<lfloor>r\<rfloor> else \<lceil>r\<rceil>))"

text \<open>
  The division of an array by a scalar, \<^verbatim>\<open>xs / d\<close>. numpy does not raise for
  \<open>d = 0\<close>: the result then holds NaN or infinities, which a \<open>real list\<close> cannot
  hold. The model marks that result with \<open>Inl FloatingPointError\<close> (numpy's exception
  for it when errors are set to raise), so that a division by zero is never mistaken for
  a block of samples.
\<close>

definition np_divide :: "real list \<Rightarrow> real \<Rightarrow> error + real list" where
  "np_divide xs d = (if d = 0 then Inl FloatingPointError else Inr (map (\<lambda>v. v / d) xs))"

text \<open>
  One pass of the loop on lines 43--47, for source bin \<open>i\<close>: the target index is
  \<^verbatim>\<open>int(i / ratio)\<close>, which can raise, and the source bin is added to the target
  bin when the index is in range.
\<close>

definition shift_bin ::
  "real \<Rightarrow> complex list \<Rightarrow> complex list \<Rightarrow> nat \<Rightarrow> error + complex list" where
  "shift_bin ratio spectrum new_spectrum i =
     (case py_truediv (real i) ratio of
        Inl e \<Rightarrow> Inl e
      | Inr q \<Rightarrow>
          (case py_int q of
             Inl e \<Rightarrow> Inl e
           | Inr new_freq_idx \<Rightarrow>
               Inr (if 0 \<le> new_freq_idx \<and> new_freq_idx < int (length new_spectrum)
                    then new_spectrum
                           [nat new_freq_idx := new_spectrum ! nat new_freq_idx + spectrum ! i]
                    else new_spectrum)))"

text \<open>The loop over the source bins \<open>is\<close> in order; it ends at the first exception.\<close>

fun shift_bins ::
  "real \<Rightarrow> complex list \<Rightarrow> complex list \<Rightarrow> nat list \<Rightarrow> error + complex list" where
  "shift_bins ratio spectrum new_spectrum [] = Inr new_spectrum"
| "shift_bins ratio spectrum new_spectrum (i # is) =
     (case shift_bin ratio spectrum new_spectrum i of
        Inl e \<Rightarrow> Inl e
      | Inr new_spectrum' \<Rightarrow> shift_bins ratio spectrum new_spectrum' is)"

text \<open>Lines 41--47: the loop over all source bins, from a zero spectrum of the same size.\<close>

definition shift_spectrum :: "real \<Rightarrow> complex list \<Rightarrow> error + complex list" where
  "shift_spectrum ratio spectrum =
     shift_bins ratio spectrum (replicate (length spectrum) 0) [0..<length spectrum]"

text \<open>
  Lines 52--55: rescale to the peak of the input, unless the peak of the shifted block
  is zero.
\<close>

definition normalize_peak :: "real list \<Rightarrow> real list \<Rightarrow> error + real list" where
  "normalize_peak audio shifted =
     (case np_max (map abs shifted) of
        Inl e \<Rightarrow> Inl e
      | Inr max_val \<Rightarrow>
          if 0 < max_val
          then (case np_divide shifted max_val of
                  Inl e \<Rightarrow> Inl e
                | Inr scaled \<Rightarrow>
                    (case np_max (map abs audio) of
                       Inl e \<Rightarrow> Inl e
                     | Inr peak \<Rightarrow> Inr (map (\<lambda>v. v * peak) scaled)))
          else Inr shifted)"

text \<open>
  The function. The bypass comes first, then the ratio (line 34), then the transform;
  \<^verbatim>\<open>freqs\<close> (line 38) is computed and never used, so it is left out.
\<close>

definition pitch_shift_fast :: "real list \<Rightarrow> real \<Rightarrow> error + real list" where
  "pitch_shift_fast audio semitones =
     (if \<bar>semitones\<bar> < 0.1 then Inr audio
      else
        (case py_pow2 (semitones / 12) of
           Inl e \<Rightarrow> Inl e
         | Inr ratio \<Rightarrow>
             (case rfft audio of
                Inl e \<Rightarrow> Inl e
              | Inr spectrum \<Rightarrow>
                  (case shift_spectrum ratio spectrum of
                     Inl e \<Rightarrow> Inl e
                   | Inr new_spectrum \<Rightarrow>
                       (case irfft new_spectrum (length audio) of
                          Inl e \<Rightarrow> Inl e
                        | Inr shifted \<Rightarrow> normalize_peak audio shifted)))))"

text \<open>
  The pitch values at which none of the float operations of the pitch shifter leaves
  the range, for a block of \<open>n\<close> samples: the ratio neither overflows nor vanishes, and
  the quotient for the last bin, \<open>n div 2\<close>, does not overflow. For the stream's block
  sizes this is every pitch from about \<open>-12200\<close> up to, and not including, \<open>12288\<close>
  semitones.
\<close>

definition pitch_in_range :: "nat \<Rightarrow> real \<Rightarrow> bool" where
  "pitch_in_range n semitones \<longleftrightarrow>
     semitones / 12 < 1024 \<and> - 1075 < semitones / 12 \<and>
     \<not> float_overflow (real (n div 2) / 2 powr (semitones / 12))"

subsection \<open>The audio callback\<close>

text \<open>
  \<^verbatim>\<open>indata\<close> has shape \<open>(frames, channels)\<close>; it is modelled as the list of its
  columns, one \<open>real list\<close> per channel. \<^verbatim>\<open>outdata\<close> has shape \<open>(frames, 2)\<close>; the
  callback's result holds its two columns.
\<close>

definition get_mono :: "real list list \<Rightarrow> real list" where
  "get_mono indata = (if 1 < length indata then indata ! 0 else concat indata)"

text \<open>
  \<^verbatim>\<open>outdata[:, c] = v\<close>: the column takes \<open>v\<close> when \<open>v\<close> has \<open>frames\<close> samples, a
  single sample is broadcast, and any other length raises \<^verbatim>\<open>ValueError\<close>.
\<close>

definition set_column :: "nat \<Rightarrow> real list \<Rightarrow> error + real list" where
  "set_column frames v =
     (if length v = frames then Inr v
      else if length v = 1 then Inr (replicate frames (hd v))
      else Inl ValueError)"

definition set_stereo :: "nat \<Rightarrow> real list \<Rightarrow> error + real list \<times> real list" where
  "set_stereo frames v =
     (case set_column frames v of
        Inl e \<Rightarrow> Inl e
      | Inr c0 \<Rightarrow> (case set_column frames v of Inl e \<Rightarrow> Inl e | Inr c1 \<Rightarrow> Inr (c0, c1)))"

text \<open>Lines 111--114: truncate or zero-pad to \<open>frames\<close> samples.\<close>

definition fix_length :: "real list \<Rightarrow> nat \<Rightarrow> real list" where
  "fix_length shifted frames =
     (if frames < length shifted then take frames shifted
      else if length shifted < frames then shifted @ replicate (frames - length shifted) 0
      else shifted)"

definition np_clip :: "real list \<Rightarrow> real \<Rightarrow> real \<Rightarrow> real list" where
  "np_clip xs lo hi = map (\<lambda>v. min (max v lo) hi) xs"

text \<open>
  The body of the \<^verbatim>\<open>try\<close> block (lines 106--128); \<open>mono_in\<close> is the source's
  \<^verbatim>\<open>mono\<close>. The state it returns carries the
  carrier cursor, which the robotic effect advances even when it raises.
\<close>

definition process_block ::
  "state \<Rightarrow> real list \<Rightarrow> nat \<Rightarrow> state \<times> (error + real list \<times> real list)" where
  "process_block st mono_in frames =
     (case (if 0.1 < \<bar>current_pitch st\<bar>
            then (case pitch_shift_fast mono_in (current_pitch st) of
                    Inl e \<Rightarrow> Inl e
                  | Inr shifted \<Rightarrow> Inr (fix_length shifted frames))
            else Inr mono_in) of
        Inl e \<Rightarrow> (st, Inl e)
      | Inr shifted \<Rightarrow>
          (case (if robotic_enabled st then apply_robotic_effect st shifted 0.7
                 else (st, Inr shifted)) of
             (st', Inl e) \<Rightarrow> (st', Inl e)
           | (st', Inr shifted') \<Rightarrow>
               (st', set_stereo frames (np_clip (map (\<lambda>v. v * 2.2) shifted') (- 0.95) 0.95))))"

text \<open>
  The callback. \<open>Inl\<close> in its result is an exception that leaves the callback; only the
  assignments of the \<^verbatim>\<open>except\<close> handler can produce one.
\<close>

definition audio_callback ::
  "state \<Rightarrow> real list list \<Rightarrow> nat \<Rightarrow> state \<times> (error + real list \<times> real list)" where
  "audio_callback st indata frames =
     (let mono_in = get_mono indata
      in if push_to_talk_enabled st \<and> \<not> is_talking st
         then (st, Inr (replicate frames 0, replicate frames 0))
         else (case process_block st mono_in frames of
                 (st', Inr out) \<Rightarrow> (st', Inr out)
               | (st', Inl e) \<Rightarrow> (st', set_stereo frames (map (\<lambda>v. v * 1.5) mono_in))))"

text \<open>The shape the audio driver guarantees: at least one channel, each of \<open>frames\<close> samples.\<close>

definition indata_shape :: "real list list \<Rightarrow> nat \<Rightarrow> bool" where
  "indata_shape indata frames \<longleftrightarrow> indata \<noteq> [] \<and> list_all (\<lambda>c. length c = frames) indata"

subsection \<open>The control loop\<close>

text \<open>
  The \<^verbatim>\<open>if\<close>/\<^verbatim>\<open>elif\<close> chain of \<^verbatim>\<open>main\<close> for one key other than \<^verbatim>\<open>q\<close>.
  \<open>next1\<close> and \<open>next2\<close> are the two further reads made after an escape character.
\<close>

definition key_action :: "char \<Rightarrow> char option \<Rightarrow> char option \<Rightarrow> state \<Rightarrow> state" where
  "key_action key next1 next2 st =
     (if key = CHR ''r'' \<or> key = CHR ''R'' then st\<lparr>robotic_enabled := \<not> robotic_enabled st\<rparr>
      else if key = CHR ''p'' \<or> key = CHR ''P'' then
        (let st1 = st\<lparr>push_to_talk_enabled := \<not> push_to_talk_enabled st\<rparr>
         in if \<not> push_to_talk_enabled st1 then st1\<lparr>is_talking := False\<rparr> else st1)
      else if key = CHR '' '' then
        (if push_to_talk_enabled st then st\<lparr>is_talking := \<not> is_talking st\<rparr> else st)
      else if key = CHR ''+'' \<or> key = CHR ''='' then st\<lparr>current_pitch := current_pitch st + 0.5\<rparr>
      else if key = CHR ''-'' \<or> key = CHR ''_'' then st\<lparr>current_pitch := current_pitch st - 0.5\<rparr>
      else if key = CHR ''0'' then st\<lparr>current_pitch := PITCH_SHIFT\<rparr>
      else if key = CHR 0x1B then
        (if next1 = Some CHR ''['' then
           (if next2 = Some CHR ''A'' then st\<lparr>current_pitch := current_pitch st + 0.5\<rparr>
            else if next2 = Some CHR ''B'' then st\<lparr>current_pitch := current_pitch st - 0.5\<rparr>
            else st)
         else st)
      else st)"

text \<open>
  The \<^verbatim>\<open>while True\<close> loop over the successive results of \<^verbatim>\<open>get_key()\<close>
  (\<open>None\<close> when no key arrived in time). \<^verbatim>\<open>q\<close> leaves the loop; so does the end
  of the input, which stands for an interrupt.
\<close>

definition read_key :: "char option list \<Rightarrow> char option" where
  "read_key keys = (case keys of [] \<Rightarrow> None | k # _ \<Rightarrow> k)"

function main_loop :: "char option list \<Rightarrow> state \<Rightarrow> state" where
  "main_loop [] st = st"
| "main_loop (None # keys) st = main_loop keys st"
| "main_loop (Some key # keys) st =
     (if key = CHR ''q'' then st
      else if key = CHR 0x1B
        then main_loop (drop 2 keys) (key_action key (read_key keys) (read_key (drop 1 keys)) st)
      else main_loop keys (key_action key None None st))"
  by pat_completeness auto
termination
  by (relation "measure (\<lambda>(keys, st). length keys)") auto

definition ptt_invariant :: "state \<Rightarrow> bool" where
  "ptt_invariant st \<longleftrightarrow> (is_talking st \<longrightarrow> push_to_talk_enabled st)"

section \<open>Properties\<close>

subsection \<open>Slices and the carrier table\<close>

lemma length_carrier_table: "length carrier_table = 4800"
  by (simp add: carrier_table_def carrier_table_size_def)

lemma length_py_slice_both:
  "0 \<le> lo \<Longrightarrow> lo \<le> hi \<Longrightarrow> hi \<le> int (length xs) \<Longrightarrow>
   length (py_slice xs (Some lo) (Some hi)) = nat (hi - lo)"
  by (simp add: py_slice_def py_index_clamp_def Let_def)

lemma length_py_slice_from:
  "0 \<le> lo \<Longrightarrow> lo \<le> int (length xs) \<Longrightarrow>
   length (py_slice xs (Some lo) None) = nat (int (length xs) - lo)"
  by (simp add: py_slice_def py_index_clamp_def Let_def)

lemma length_py_slice_to:
  "0 \<le> hi \<Longrightarrow> length (py_slice xs None (Some hi)) = nat (min hi (int (length xs)))"
  by (simp add: py_slice_def py_index_clamp_def Let_def)

lemma length_carrier_segment:
  assumes "0 \<le> start_idx" "start_idx < 4800" "0 \<le> n"
  shows "length (carrier_segment start_idx n) =
           (if start_idx + n \<le> 9600 then nat n else nat (9600 - start_idx))"
proof (cases "start_idx + n \<le> 4800")
  case True
  with assms show ?thesis
    by (simp add: carrier_segment_def carrier_table_size_def Let_def
        length_py_slice_both length_carrier_table)
next
  case False
  with assms have "length (carrier_segment start_idx n) =
      nat (4800 - start_idx) + nat (min (start_idx + n - 4800) 4800)"
    by (simp add: carrier_segment_def carrier_table_size_def Let_def
        length_py_slice_from length_py_slice_to length_carrier_table)
  with assms False show ?thesis
    by (simp add: min_def) linarith
qed

subsection \<open>The carrier read\<close>

text \<open>
  C2, as stated, fails: a read of 9601 samples from the initial cursor wraps the table more
  than once, and the code concatenates only the tail of the table and one slice of its
  head, so the segment has 9600 samples.
\<close>

theorem carrier_segment_length_counterexample:
  "length (carrier_segment 0 9601) = 9600 \<and> length (carrier_segment 0 9601) \<noteq> nat 9601"
  using length_carrier_segment [of 0 9601] by simp

text \<open>
  C2, amended: for a cursor inside the table and a requested length \<open>n \<ge> 0\<close>, the segment
  has exactly \<open>n\<close> samples whenever the read ends within two table lengths of the table's
  start (no wrap, or one crossing of the boundary; this covers every \<open>n\<close> up to the table
  size); a longer read yields only the samples up to the end of the second pass,
  \<open>2 * carrier_table_size - start_idx\<close> of them.
\<close>

theorem carrier_segment_length:
  assumes "0 \<le> start_idx" and "start_idx < carrier_table_size" and "0 \<le> n"
  shows "(start_idx + n \<le> 2 * carrier_table_size \<longrightarrow>
            length (carrier_segment start_idx n) = nat n) \<and>
         (2 * carrier_table_size < start_idx + n \<longrightarrow>
            length (carrier_segment start_idx n) = nat (2 * carrier_table_size - start_idx))"
  using assms length_carrier_segment [of start_idx n]
  by (simp add: carrier_table_size_def)

theorem carrier_segment_length_witness:
  "(0::int) \<le> 4700 \<and> 4700 < carrier_table_size \<and> (0::int) \<le> 256 \<and>
   4700 + 256 \<le> 2 * carrier_table_size \<and>
   length (carrier_segment 4700 256) = nat 256 \<and>
   (0::int) \<le> 1 \<and> 1 < carrier_table_size \<and> (0::int) \<le> 9600 \<and>
   2 * carrier_table_size < 1 + 9600 \<and>
   length (carrier_segment 1 9600) = nat (2 * carrier_table_size - 1)"
  using carrier_segment_length [of 4700 256] carrier_segment_length [of 1 9600]
  by (simp add: carrier_table_size_def)

subsection \<open>The carrier cursor\<close>

lemma carrier_idx_apply_robotic_effect:
  "carrier_idx (fst (apply_robotic_effect st audio intensity)) =
     (carrier_idx st + int (length audio)) mod carrier_table_size"
  by (simp add: apply_robotic_effect_def Let_def)

lemma carrier_idx_robotic_calls:
  "0 \<le> carrier_idx st \<Longrightarrow> carrier_idx st < carrier_table_size \<Longrightarrow>
   carrier_idx (robotic_calls st blocks) =
     (carrier_idx st + (\<Sum>audio\<leftarrow>blocks. int (length audio))) mod carrier_table_size"
proof (induction blocks arbitrary: st)
  case Nil
  then show ?case by simp
next
  case (Cons audio rest)
  let ?st' = "fst (apply_robotic_effect st audio 0.7)"
  have idx: "carrier_idx ?st' = (carrier_idx st + int (length audio)) mod carrier_table_size"
    by (rule carrier_idx_apply_robotic_effect)
  have pos: "0 < carrier_table_size"
    by (simp add: carrier_table_size_def)
  have "0 \<le> carrier_idx ?st'" and "carrier_idx ?st' < carrier_table_size"
    using pos by (simp_all add: idx)
  then have "carrier_idx (robotic_calls ?st' rest) =
      (carrier_idx ?st' + (\<Sum>a\<leftarrow>rest. int (length a))) mod carrier_table_size"
    by (rule Cons.IH)
  also have "\<dots> = (carrier_idx st + int (length audio) + (\<Sum>a\<leftarrow>rest. int (length a)))
      mod carrier_table_size"
    by (simp add: idx mod_add_left_eq)
  finally show ?case
    by (simp add: add.assoc)
qed

text \<open>
  C3: from a cursor inside the table, after calls on blocks of lengths \<open>l1, ..., lk\<close> the
  cursor is \<open>(initial + L) mod carrier_table_size\<close> for \<open>L\<close> the sum of the lengths, it
  lies in \<open>[0, carrier_table_size)\<close>, and any other run of calls with the same total
  length ends at the same cursor.
\<close>

theorem carrier_cursor_advance:
  assumes "0 \<le> carrier_idx st" and "carrier_idx st < carrier_table_size"
  shows "carrier_idx (robotic_calls st blocks) =
           (carrier_idx st + (\<Sum>audio\<leftarrow>blocks. int (length audio))) mod carrier_table_size
         \<and> 0 \<le> carrier_idx (robotic_calls st blocks)
         \<and> carrier_idx (robotic_calls st blocks) < carrier_table_size
         \<and> (\<forall>blocks'. (\<Sum>audio\<leftarrow>blocks'. int (length audio)) = (\<Sum>audio\<leftarrow>blocks. int (length audio))
              \<longrightarrow> carrier_idx (robotic_calls st blocks') = carrier_idx (robotic_calls st blocks))"
proof -
  have pos: "0 < carrier_table_size"
    by (simp add: carrier_table_size_def)
  have eq: "carrier_idx (robotic_calls st bs) =
      (carrier_idx st + (\<Sum>audio\<leftarrow>bs. int (length audio))) mod carrier_table_size" for bs
    using assms by (rule carrier_idx_robotic_calls)
  show ?thesis
    using pos by (simp add: eq)
qed

theorem carrier_cursor_advance_witness:
  "0 \<le> carrier_idx initial_state \<and> carrier_idx initial_state < carrier_table_size \<and>
   carrier_idx (robotic_calls initial_state [replicate 4000 0, replicate 6000 0]) = 400 \<and>
   carrier_idx (robotic_calls initial_state [replicate 10000 0]) = 400"
  using carrier_cursor_advance [of initial_state "[replicate 4000 0, replicate 6000 0]"]
    carrier_cursor_advance [of initial_state "[replicate 10000 0]"]
  by (simp add: initial_state_def carrier_table_size_def)


subsection \<open>The pitch shifter: bypass\<close>

text \<open>
  C7: for every input and every \<open>semitones\<close> with \<open>\<bar>semitones\<bar> < 0.1\<close> the function returns
  its argument itself. The function has no sample-rate parameter; the module constant
  \<^verbatim>\<open>SAMPLE_RATE\<close> is read only after the bypass.
\<close>

theorem pitch_shift_bypass:
  "\<bar>semitones\<bar> < 0.1 \<Longrightarrow> pitch_shift_fast audio semitones = Inr audio"
  by (simp add: pitch_shift_fast_def)

theorem pitch_shift_bypass_witness:
  "\<bar>0.05 :: real\<bar> < 0.1 \<and> pitch_shift_fast [0.5, - 0.25, 1] 0.05 = Inr [0.5, - 0.25, 1]"
  using pitch_shift_bypass [of "0.05" "[0.5, - 0.25, 1]"] by simp

subsection \<open>Push-to-talk gate\<close>

text \<open>
  C5: when push-to-talk is enabled and the talk flag is off, the callback writes
  \<open>frames\<close> zeros to both channels for any input, pitch and robotic setting, and returns
  the state as it was: the carrier cursor has not moved, so nothing else has run.
\<close>

theorem ptt_mute:
  "push_to_talk_enabled st \<Longrightarrow> \<not> is_talking st \<Longrightarrow>
   audio_callback st indata frames = (st, Inr (replicate frames 0, replicate frames 0))"
  by (simp add: audio_callback_def)

theorem ptt_mute_witness:
  "push_to_talk_enabled (initial_state\<lparr>push_to_talk_enabled := True\<rparr>) \<and>
   \<not> is_talking (initial_state\<lparr>push_to_talk_enabled := True\<rparr>) \<and>
   audio_callback (initial_state\<lparr>push_to_talk_enabled := True\<rparr>) [ [0.5, - 0.5, 1] ] 3 =
     (initial_state\<lparr>push_to_talk_enabled := True\<rparr>, Inr ([0, 0, 0], [0, 0, 0]))"
  using ptt_mute [of "initial_state\<lparr>push_to_talk_enabled := True\<rparr>" "[ [0.5, - 0.5, 1] ]" 3]
  by (simp add: initial_state_def numeral_3_eq_3)

subsection \<open>The control keys\<close>

lemma ptt_invariant_key_action:
  "ptt_invariant st \<Longrightarrow> ptt_invariant (key_action key next1 next2 st)"
  by (auto simp add: ptt_invariant_def key_action_def Let_def)

lemma ptt_invariant_main_loop:
  "ptt_invariant st \<Longrightarrow> ptt_invariant (main_loop keys st)"
  by (induction keys st rule: main_loop.induct) (simp_all add: ptt_invariant_key_action)

lemma ptt_invariant_initial: "ptt_invariant initial_state"
  by (simp add: ptt_invariant_def initial_state_def)

text \<open>
  C10: the invariant "talking implies push-to-talk enabled" holds in the initial state, is
  kept by every key action, and so holds after any sequence of key reads from the initial
  state. Space toggles the talk flag only when push-to-talk is enabled; \<^verbatim>\<open>p\<close> toggles
  push-to-talk and clears the talk flag when it disables it; no other key changes either
  flag.
\<close>

theorem ptt_invariant_preserved:
  "ptt_invariant initial_state
   \<and> (ptt_invariant st \<longrightarrow> ptt_invariant (key_action key next1 next2 st))
   \<and> ptt_invariant (main_loop keys initial_state)
   \<and> key_action (CHR '' '') next1 next2 st =
       (if push_to_talk_enabled st then st\<lparr>is_talking := \<not> is_talking st\<rparr> else st)
   \<and> (key = CHR ''p'' \<or> key = CHR ''P'' \<longrightarrow>
        key_action key next1 next2 st =
          (if push_to_talk_enabled st
           then st\<lparr>push_to_talk_enabled := False, is_talking := False\<rparr>
           else st\<lparr>push_to_talk_enabled := True\<rparr>))
   \<and> (key \<noteq> CHR ''p'' \<and> key \<noteq> CHR ''P'' \<and> key \<noteq> CHR '' '' \<longrightarrow>
        push_to_talk_enabled (key_action key next1 next2 st) = push_to_talk_enabled st \<and>
        is_talking (key_action key next1 next2 st) = is_talking st)"
proof -
  have a: "ptt_invariant st \<longrightarrow> ptt_invariant (key_action key next1 next2 st)"
    by (simp add: ptt_invariant_key_action)
  have b: "ptt_invariant (main_loop keys initial_state)"
    by (simp add: ptt_invariant_main_loop ptt_invariant_initial)
  have c: "key_action (CHR '' '') next1 next2 st =
       (if push_to_talk_enabled st then st\<lparr>is_talking := \<not> is_talking st\<rparr> else st)"
    by (simp add: key_action_def)
  have d: "key = CHR ''p'' \<or> key = CHR ''P'' \<longrightarrow>
        key_action key next1 next2 st =
          (if push_to_talk_enabled st
           then st\<lparr>push_to_talk_enabled := False, is_talking := False\<rparr>
           else st\<lparr>push_to_talk_enabled := True\<rparr>)"
    by (auto simp add: key_action_def Let_def)
  have e: "key \<noteq> CHR ''p'' \<and> key \<noteq> CHR ''P'' \<and> key \<noteq> CHR '' '' \<longrightarrow>
        push_to_talk_enabled (key_action key next1 next2 st) = push_to_talk_enabled st \<and>
        is_talking (key_action key next1 next2 st) = is_talking st"
    by (simp add: key_action_def)
  from ptt_invariant_initial a b c d e show ?thesis by blast
qed

theorem ptt_invariant_preserved_witness:
  "is_talking (main_loop [Some CHR ''p'', None, Some CHR '' ''] initial_state) \<and>
   push_to_talk_enabled (main_loop [Some CHR ''p'', None, Some CHR '' ''] initial_state) \<and>
   ptt_invariant (initial_state\<lparr>push_to_talk_enabled := True, is_talking := True\<rparr>) \<and>
   ptt_invariant (key_action CHR ''p'' None None
      (initial_state\<lparr>push_to_talk_enabled := True, is_talking := True\<rparr>)) \<and>
   \<not> is_talking (key_action CHR ''p'' None None
      (initial_state\<lparr>push_to_talk_enabled := True, is_talking := True\<rparr>))"
  using ptt_invariant_preserved [of "initial_state\<lparr>push_to_talk_enabled := True, is_talking := True\<rparr>"
      "CHR ''p''" None None "[Some CHR ''p'', None, Some CHR '' '']"]
  by (simp add: ptt_invariant_def key_action_def initial_state_def Let_def)


subsection \<open>The robotic effect: output range\<close>

lemma ring_modulate_same_length:
  "length carrier = length audio \<Longrightarrow>
   ring_modulate audio carrier intensity =
     Inr (map2 (\<lambda>a c. a * c * intensity + a * (1 - intensity)) audio carrier)"
  by (simp add: ring_modulate_def np_broadcast_def zip_map1 zip_map2 map_zip_map map_zip_map2
        list_eq_iff_nth_eq)

lemma np_round_bounds: "of_int \<lfloor>x\<rfloor> \<le> np_round x \<and> np_round x \<le> of_int \<lceil>x\<rceil>"
proof -
  have "of_int \<lfloor>x\<rfloor> \<le> x" "x \<le> of_int \<lceil>x\<rceil>" by simp_all
  moreover have "real_of_int (\<lfloor>x\<rfloor> + 1) \<le> of_int \<lceil>x\<rceil>" if "x \<noteq> of_int \<lfloor>x\<rfloor>"
    using that by (metis ceiling_altdef order_refl)
  ultimately show ?thesis
    by (auto simp add: np_round_def Let_def)
qed

lemma np_round_abs_le:
  assumes "\<bar>x\<bar> \<le> of_int k"
  shows "\<bar>np_round x\<bar> \<le> of_int k"
proof -
  from assms have "x \<le> of_int k" "of_int (- k) \<le> x" by simp_all
  then have "\<lceil>x\<rceil> \<le> k" "- k \<le> \<lfloor>x\<rfloor>"
    by (simp_all add: ceiling_le_iff le_floor_iff)
  then have "real_of_int \<lceil>x\<rceil> \<le> of_int k" "real_of_int (- k) \<le> of_int \<lfloor>x\<rfloor>"
    by (simp_all only: of_int_le_iff)
  with np_round_bounds [of x] have "np_round x \<le> of_int k" "- of_int k \<le> np_round x"
    by simp_all
  then show ?thesis by (simp only: abs_le_iff) simp
qed

lemma blend_abs_le:
  fixes a c i :: real
  assumes "\<bar>a\<bar> \<le> 1" "\<bar>c\<bar> \<le> 1" "0 \<le> i" "i \<le> 1"
  shows "\<bar>a * c * i + a * (1 - i)\<bar> \<le> 1"
proof -
  have "c * i \<le> 1 * i" "(- 1) * i \<le> c * i"
    using assms by (simp_all only: abs_le_iff mult_right_mono minus_le_iff [of c 1])
  then have "c * i \<le> i" "- i \<le> c * i"
    by simp_all
  then have "\<bar>c * i + (1 - i)\<bar> \<le> 1"
    using assms by (simp add: abs_le_iff)
  then have "\<bar>a\<bar> * \<bar>c * i + (1 - i)\<bar> \<le> 1 * 1"
    using assms(1) by (intro mult_mono) simp_all
  moreover have "a * c * i + a * (1 - i) = a * (c * i + (1 - i))"
    by (simp add: algebra_simps)
  ultimately show ?thesis
    by (simp add: abs_mult)
qed

lemma soft_clip_sample_bounds:
  fixes q :: real
  shows "- 0.9 < tanh (q * 1.2) * 0.9" and "tanh (q * 1.2) * 0.9 < 0.9"
  using tanh_real_gt_neg1 [of "q * 1.2"] tanh_real_lt_1 [of "q * 1.2"] by simp_all

lemma soft_clip_sample_tight:
  fixes q :: real
  assumes "\<bar>q\<bar> \<le> 1"
  shows "\<bar>tanh (q * 1.2) * 0.9\<bar> \<le> tanh 1.2 * 0.9"
proof -
  have "\<bar>q * 1.2\<bar> \<le> 1.2"
    using assms by (simp add: abs_mult)
  then have "tanh \<bar>q * 1.2\<bar> \<le> tanh 1.2"
    by (simp only: tanh_real_le_iff)
  then have "\<bar>tanh (q * 1.2)\<bar> \<le> tanh 1.2"
    by (simp only: tanh_real_abs)
  then show ?thesis by (simp add: abs_mult)
qed


lemma quantised_sample_abs_le:
  fixes m :: real
  assumes "\<bar>m\<bar> \<le> 1"
  shows "\<bar>np_round (m * 2 ^ 10) / 2 ^ 10\<bar> \<le> 1"
proof -
  have "\<bar>m * 2 ^ 10\<bar> \<le> of_int 1024"
    using assms by (simp add: abs_mult)
  then have "\<bar>np_round (m * 2 ^ 10)\<bar> \<le> of_int 1024"
    by (rule np_round_abs_le)
  then show ?thesis by simp
qed

text \<open>
  C4: for audio and carrier of the same length with samples in \<open>[-1, 1]\<close> and an intensity
  in \<open>[0, 1]\<close>, the effect returns a block of the same length whose samples lie strictly
  between \<open>-0.9\<close> and \<open>0.9\<close>; they are in fact bounded by \<open>0.9 * tanh 1.2\<close>.
\<close>

theorem robotic_stage_bounded:
  assumes len: "length carrier = length audio"
    and audio: "\<forall>a\<in>set audio. - 1 \<le> a \<and> a \<le> 1"
    and carrier: "\<forall>c\<in>set carrier. - 1 \<le> c \<and> c \<le> 1"
    and intensity: "0 \<le> intensity" "intensity \<le> 1"
  shows "\<exists>out. robotic_stage audio carrier intensity = Inr out \<and> length out = length audio \<and>
           (\<forall>y\<in>set out. - 0.9 < y \<and> y < 0.9 \<and> \<bar>y\<bar> \<le> tanh 1.2 * 0.9)"
proof -
  let ?blend = "\<lambda>a c. a * c * intensity + a * (1 - intensity)"
  let ?modulated = "map2 ?blend audio carrier"
  let ?out = "soft_clip (bit_reduce ?modulated)"
  have stage: "robotic_stage audio carrier intensity = Inr ?out"
    using len by (simp add: robotic_stage_def ring_modulate_same_length)
  have length: "length ?out = length audio"
    using len by (simp add: soft_clip_def bit_reduce_def)
  have "- 0.9 < y \<and> y < 0.9 \<and> \<bar>y\<bar> \<le> tanh 1.2 * 0.9" if "y \<in> set ?out" for y
  proof -
    from that obtain a c where ac: "(a, c) \<in> set (zip audio carrier)"
      and y: "y = tanh (np_round (?blend a c * 2 ^ 10) / 2 ^ 10 * 1.2) * 0.9"
      by (auto simp add: soft_clip_def bit_reduce_def)
    from ac have "a \<in> set audio" "c \<in> set carrier"
      by (auto dest: set_zip_leftD set_zip_rightD)
    with audio carrier have "\<bar>a\<bar> \<le> 1" "\<bar>c\<bar> \<le> 1"
      by (simp_all add: abs_le_iff)
    then have "\<bar>?blend a c\<bar> \<le> 1"
      using intensity by (rule blend_abs_le)
    then have "\<bar>np_round (?blend a c * 2 ^ 10) / 2 ^ 10\<bar> \<le> 1"
      by (rule quantised_sample_abs_le)
    then have "\<bar>y\<bar> \<le> tanh 1.2 * 0.9"
      unfolding y by (rule soft_clip_sample_tight)
    moreover have "- 0.9 < y" "y < 0.9"
      unfolding y by (rule soft_clip_sample_bounds)+
    ultimately show ?thesis by simp
  qed
  with stage length show ?thesis by blast
qed

theorem robotic_stage_bounded_witness:
  "length [1, - 0.5 :: real] = length [0.5, - 1 :: real] \<and>
   list_all (\<lambda>a. - 1 \<le> a \<and> a \<le> 1) [0.5, - 1 :: real] \<and>
   list_all (\<lambda>c. - 1 \<le> c \<and> c \<le> 1) [1, - 0.5 :: real] \<and>
   (0 :: real) \<le> 0.7 \<and> (0.7 :: real) \<le> 1 \<and>
   (\<exists>out. robotic_stage [0.5, - 1] [1, - 0.5] 0.7 = Inr out \<and> length out = length [0.5, - 1 :: real] \<and>
      (\<forall>y\<in>set out. - 0.9 < y \<and> y < 0.9 \<and> \<bar>y\<bar> \<le> tanh 1.2 * 0.9))"
  using robotic_stage_bounded [of "[1, - 0.5]" "[0.5, - 1]" "0.7"]
  by simp


subsection \<open>The callback: failure and fallback\<close>

lemma length_get_mono:
  "indata_shape indata frames \<Longrightarrow> length (get_mono indata) = frames"
  by (cases indata) (auto simp add: indata_shape_def get_mono_def)

lemma set_stereo_same_length:
  "length v = frames \<Longrightarrow> set_stereo frames v = Inr (v, v)"
  by (simp add: set_stereo_def set_column_def)

lemma set_stereo_Inr:
  assumes "set_stereo frames v = Inr (c0, c1)"
  shows "length c0 = frames \<and> length c1 = frames \<and> set c0 \<subseteq> set v \<and> set c1 \<subseteq> set v"
proof (cases "length v = frames")
  case True
  with assms show ?thesis
    by (auto simp add: set_stereo_def set_column_def)
next
  case False
  with assms have one: "length v = 1" and c: "c0 = replicate frames (hd v)" "c1 = replicate frames (hd v)"
    by (auto simp add: set_stereo_def set_column_def split: if_splits)
  from one have "hd v \<in> set v"
    by (cases v) simp_all
  with c show ?thesis
    by (auto simp add: set_replicate_conv_if)
qed

lemma length_fix_length: "length (fix_length shifted frames) = frames"
  by (simp add: fix_length_def)

text \<open>The pitch shifter raises before it looks at the block once the ratio overflows.\<close>

lemma pitch_shift_fast_overflow:
  "1024 \<le> semitones / 12 \<Longrightarrow> pitch_shift_fast audio semitones = Inl OverflowError"
  by (simp add: pitch_shift_fast_def py_pow2_def)

lemma process_block_pitch_overflow:
  "1024 \<le> current_pitch st / 12 \<Longrightarrow>
   process_block st mono_in frames = (st, Inl OverflowError)"
  by (simp add: process_block_def pitch_shift_fast_overflow)

text \<open>A block too long for the carrier read makes the robotic effect raise.\<close>

lemma apply_robotic_effect_overlong:
  assumes "0 \<le> carrier_idx st" "carrier_idx st < carrier_table_size"
    and "2 * carrier_table_size < carrier_idx st + int (length audio)"
  shows "snd (apply_robotic_effect st audio intensity) = Inl ValueError"
proof -
  let ?carrier = "carrier_segment (carrier_idx st) (int (length audio))"
  have "length ?carrier = nat (9600 - carrier_idx st)"
    using assms length_carrier_segment [of "carrier_idx st" "int (length audio)"]
    by (simp add: carrier_table_size_def)
  with assms have "length audio \<noteq> length ?carrier" "length audio \<noteq> 1" "length ?carrier \<noteq> 1"
    by (simp_all add: carrier_table_size_def)
  then have "np_broadcast (*) audio ?carrier = Inl ValueError"
    by (simp add: np_broadcast_def)
  then show ?thesis
    by (simp add: apply_robotic_effect_def Let_def robotic_stage_def ring_modulate_def)
qed

lemma process_block_overlong:
  assumes "robotic_enabled st" "0 \<le> carrier_idx st" "carrier_idx st < carrier_table_size"
    and "2 * carrier_table_size < carrier_idx st + int frames"
    and "length mono_in = frames"
  shows "\<exists>e. snd (process_block st mono_in frames) = Inl e"
proof -
  have raise: "snd (apply_robotic_effect st shifted 0.7) = Inl ValueError"
    if "length shifted = frames" for shifted
    using assms that by (simp add: apply_robotic_effect_overlong)
  show ?thesis
  proof (cases "0.1 < \<bar>current_pitch st\<bar>")
    case True
    show ?thesis
    proof (cases "pitch_shift_fast mono_in (current_pitch st)")
      case (Inl e)
      with True show ?thesis by (simp add: process_block_def)
    next
      case (Inr shifted)
      from raise [of "fix_length shifted frames"] Inr True assms(1) show ?thesis
        by (auto simp add: process_block_def length_fix_length split: prod.splits sum.splits)
    qed
  next
    case False
    from raise [of mono_in] False assms(1,5) show ?thesis
      by (auto simp add: process_block_def split: prod.splits sum.splits)
  qed
qed

lemma audio_callback_on_error:
  assumes "\<not> (push_to_talk_enabled st \<and> \<not> is_talking st)"
    and "snd (process_block st (get_mono indata) frames) = Inl e"
    and "length (get_mono indata) = frames"
  shows "snd (audio_callback st indata frames) =
           Inr (map (\<lambda>v. v * 1.5) (get_mono indata), map (\<lambda>v. v * 1.5) (get_mono indata))"
  using assms
  by (cases "process_block st (get_mono indata) frames")
     (auto simp add: audio_callback_def Let_def set_stereo_same_length)

lemma audio_callback_returns:
  assumes "length (get_mono indata) = frames"
  shows "\<exists>out. snd (audio_callback st indata frames) = Inr out"
proof (cases "process_block st (get_mono indata) frames")
  case (Pair st' r)
  then show ?thesis
    using assms
    by (cases r) (auto simp add: audio_callback_def Let_def set_stereo_same_length)
qed

text \<open>
  The callback on one block of the stream's size, 256 samples of value \<open>1\<close>, once the
  pitch has been raised to 12288 semitones: the pitch shifter raises, both channels get
  \<open>1.5\<close>, and the state, with the carrier cursor, is as before.
\<close>

lemma audio_callback_extreme_pitch:
  "audio_callback (initial_state\<lparr>current_pitch := 12288\<rparr>) [replicate 256 1] 256 =
     (initial_state\<lparr>current_pitch := 12288\<rparr>, Inr (replicate 256 1.5, replicate 256 1.5))"
proof -
  let ?st = "initial_state\<lparr>current_pitch := 12288\<rparr>"
  have mono_in: "get_mono [replicate 256 1] = replicate 256 1"
    by (simp add: get_mono_def)
  have "process_block ?st (replicate 256 1) 256 = (?st, Inl OverflowError)"
    by (rule process_block_pitch_overflow) simp
  then show ?thesis
    by (simp add: audio_callback_def Let_def mono_in initial_state_def set_stereo_same_length)
qed

text \<open>
  C9: for an input of the driver's shape the callback always returns output columns, never
  an exception; and when the \<^verbatim>\<open>try\<close> block raises (whatever the exception and
  whichever step raised it), both columns are the mono input times \<open>1.5\<close>, not clipped.
\<close>

theorem callback_fallback:
  assumes "indata_shape indata frames"
  shows "(\<exists>out. snd (audio_callback st indata frames) = Inr out) \<and>
         (\<not> (push_to_talk_enabled st \<and> \<not> is_talking st) \<and>
          snd (process_block st (get_mono indata) frames) = Inl e \<longrightarrow>
            snd (audio_callback st indata frames) =
              Inr (map (\<lambda>v. v * 1.5) (get_mono indata), map (\<lambda>v. v * 1.5) (get_mono indata)))"
  using assms
  by (auto simp only: length_get_mono intro: audio_callback_returns audio_callback_on_error)

theorem callback_fallback_witness:
  "indata_shape [replicate 256 1] 256 \<and>
   \<not> (push_to_talk_enabled (initial_state\<lparr>current_pitch := 12288\<rparr>) \<and>
      \<not> is_talking (initial_state\<lparr>current_pitch := 12288\<rparr>)) \<and>
   snd (process_block (initial_state\<lparr>current_pitch := 12288\<rparr>) (get_mono [replicate 256 1]) 256) =
     Inl OverflowError \<and>
   snd (audio_callback (initial_state\<lparr>current_pitch := 12288\<rparr>) [replicate 256 1] 256) =
     Inr (replicate 256 1.5, replicate 256 1.5)"
proof -
  let ?st = "initial_state\<lparr>current_pitch := 12288\<rparr>"
  have mono_in: "get_mono [replicate 256 1] = replicate 256 1"
    by (simp add: get_mono_def)
  have shape: "indata_shape [replicate 256 1] 256"
    by (simp add: indata_shape_def)
  have gate: "\<not> (push_to_talk_enabled ?st \<and> \<not> is_talking ?st)"
    by (simp add: initial_state_def)
  have raised: "snd (process_block ?st (get_mono [replicate 256 1]) 256) = Inl OverflowError"
    by (simp add: process_block_pitch_overflow)
  from callback_fallback [OF shape, of ?st OverflowError] gate raised
  show ?thesis
    by (simp add: shape mono_in)
qed


subsection \<open>The pitch shifter: the float range\<close>

lemma float_overflow_below:
  "\<bar>q\<bar> \<le> 2 ^ 1023 \<Longrightarrow> \<not> float_overflow q"
proof -
  have "(2 :: real) ^ 970 < 2 ^ 1023"
    by (rule power_strict_increasing) simp_all
  moreover have "(2 :: real) ^ 1024 = 2 ^ 1023 + 2 ^ 1023"
    by (simp add: power_Suc [symmetric] del: power_Suc)
  ultimately have "(2 :: real) ^ 1023 < 2 ^ 1024 - 2 ^ 970"
    by linarith
  then show "\<bar>q\<bar> \<le> 2 ^ 1023 \<Longrightarrow> \<not> float_overflow q"
    by (simp add: float_overflow_def)
qed

lemma float_overflow_above:
  "2 ^ 1024 \<le> \<bar>q\<bar> \<Longrightarrow> float_overflow q"
proof -
  have "(0 :: real) < 2 ^ 970" by simp
  then show "2 ^ 1024 \<le> \<bar>q\<bar> \<Longrightarrow> float_overflow q"
    unfolding float_overflow_def by linarith
qed

lemma float_overflow_mono:
  "\<bar>p\<bar> \<le> \<bar>q\<bar> \<Longrightarrow> float_overflow p \<Longrightarrow> float_overflow q"
  unfolding float_overflow_def by linarith

lemma py_pow2_in_range:
  "- 1075 < x \<Longrightarrow> x < 1024 \<Longrightarrow> py_pow2 x = Inr (2 powr x)"
  by (simp add: py_pow2_def)

lemma py_pow2_underflow:
  "x \<le> - 1075 \<Longrightarrow> py_pow2 x = Inr 0"
  by (simp add: py_pow2_def)

text \<open>
  Every pitch within 12000 semitones of zero is in range for every block of up to
  65536 samples, and so for the stream's blocks of 256, 512 and 1024 samples.
\<close>

lemma pitch_in_range_moderate:
  assumes "- 12000 \<le> semitones" "semitones \<le> 12000" "n \<le> 65536"
  shows "pitch_in_range n semitones"
proof -
  let ?x = "semitones / 12"
  from assms have x: "- 1000 \<le> ?x" "?x \<le> 1000" by simp_all
  have "(2 :: real) powr (- 1000) \<le> 2 powr ?x"
    using x(1) by (simp only: powr_le_cancel_iff)
  moreover have "(2 :: real) powr (- 1000) = 1 / 2 ^ 1000"
    by (simp add: powr_minus_divide powr_realpow [symmetric] del: powr_realpow)
  ultimately have ratio: "1 / 2 ^ 1000 \<le> 2 powr ?x"
    by simp
  have "n div 2 \<le> 32768"
    using assms(3) by simp
  then have bins: "real (n div 2) \<le> 2 ^ 15"
    by (simp add: of_nat_le_iff [symmetric] del: of_nat_le_iff)
  have "real (n div 2) / 2 powr ?x \<le> real (n div 2) / (1 / 2 ^ 1000)"
    using ratio by (intro divide_left_mono) simp_all
  also have "\<dots> = real (n div 2) * 2 ^ 1000"
    by simp
  also have "\<dots> \<le> 2 ^ 15 * 2 ^ 1000"
    using bins by (intro mult_right_mono) simp_all
  also have "\<dots> = (2 :: real) ^ 1015"
    by (simp add: power_add [symmetric] del: power_Suc)
  also have "\<dots> \<le> 2 ^ 1023"
    by (rule power_increasing) simp_all
  finally have "\<bar>real (n div 2) / 2 powr ?x\<bar> \<le> 2 ^ 1023"
    by simp
  then have "\<not> float_overflow (real (n div 2) / 2 powr ?x)"
    by (rule float_overflow_below)
  with x show ?thesis
    by (simp add: pitch_in_range_def)
qed


subsection \<open>The pitch shifter: the spectrum loop\<close>

lemma rfft_Inr:
  "audio \<noteq> [] \<Longrightarrow> \<exists>spectrum. rfft audio = Inr spectrum \<and> length spectrum = length audio div 2 + 1"
  by (simp add: rfft_def)

lemma irfft_Inr:
  "0 < n \<Longrightarrow> \<exists>shifted. irfft a n = Inr shifted \<and> length shifted = n"
  by (simp add: irfft_def Let_def)

text \<open>One pass of the loop that stays in the float range: the target is \<open>\<lfloor>i / ratio\<rfloor>\<close>.\<close>

lemma shift_bin_in_range:
  assumes "0 < ratio" "\<not> float_overflow (real i / ratio)"
  shows "\<exists>new_spectrum'.
           shift_bin ratio spectrum new_spectrum i = Inr new_spectrum' \<and>
           length new_spectrum' = length new_spectrum \<and>
           (\<forall>j<length new_spectrum.
              new_spectrum' ! j =
                new_spectrum ! j + (if \<lfloor>real i / ratio\<rfloor> = int j then spectrum ! i else 0))"
proof -
  let ?t = "\<lfloor>real i / ratio\<rfloor>"
  let ?new = "if ?t < int (length new_spectrum)
    then new_spectrum [nat ?t := new_spectrum ! nat ?t + spectrum ! i] else new_spectrum"
  from assms(1) have q: "0 \<le> real i / ratio" by simp
  then have t: "0 \<le> ?t" by simp
  have step: "shift_bin ratio spectrum new_spectrum i = Inr ?new"
    using assms q t by (simp add: shift_bin_def py_truediv_def py_int_def)
  have "?new ! j = new_spectrum ! j + (if ?t = int j then spectrum ! i else 0)"
    if "j < length new_spectrum" for j
  proof (cases "?t = int j")
    case True
    with that show ?thesis by simp
  next
    case False
    with t have "nat ?t \<noteq> j" by auto
    with False show ?thesis by simp
  qed
  moreover have "length ?new = length new_spectrum" by simp
  ultimately show ?thesis
    using step by blast
qed

lemma shift_bins_in_range:
  assumes "0 < ratio" "\<forall>i\<in>set is. \<not> float_overflow (real i / ratio)"
  shows "\<exists>new_spectrum'.
           shift_bins ratio spectrum new_spectrum is = Inr new_spectrum' \<and>
           length new_spectrum' = length new_spectrum \<and>
           (\<forall>j<length new_spectrum.
              new_spectrum' ! j =
                new_spectrum ! j
                + (\<Sum>i\<leftarrow>filter (\<lambda>i. \<lfloor>real i / ratio\<rfloor> = int j) is. spectrum ! i))"
  using assms(2)
proof (induction "is" arbitrary: new_spectrum)
  case Nil
  then show ?case by simp
next
  case (Cons i rest)
  from Cons.prems have "\<not> float_overflow (real i / ratio)" by simp
  from shift_bin_in_range [OF assms(1) this, of spectrum new_spectrum]
  obtain mid where mid: "shift_bin ratio spectrum new_spectrum i = Inr mid"
    "length mid = length new_spectrum"
    "\<forall>j<length new_spectrum.
       mid ! j = new_spectrum ! j + (if \<lfloor>real i / ratio\<rfloor> = int j then spectrum ! i else 0)"
    by blast
  from Cons.prems have "\<forall>i\<in>set rest. \<not> float_overflow (real i / ratio)" by simp
  from Cons.IH [OF this, of mid]
  obtain fin where fin: "shift_bins ratio spectrum mid rest = Inr fin"
    "length fin = length mid"
    "\<forall>j<length mid.
       fin ! j = mid ! j + (\<Sum>i\<leftarrow>filter (\<lambda>i. \<lfloor>real i / ratio\<rfloor> = int j) rest. spectrum ! i)"
    by blast
  have "shift_bins ratio spectrum new_spectrum (i # rest) = Inr fin"
    by (simp add: mid(1) fin(1))
  moreover have "length fin = length new_spectrum"
    by (simp add: fin(2) mid(2))
  moreover have "fin ! j = new_spectrum ! j
      + (\<Sum>i\<leftarrow>filter (\<lambda>i. \<lfloor>real i / ratio\<rfloor> = int j) (i # rest). spectrum ! i)"
    if "j < length new_spectrum" for j
    using that mid(2,3) fin(3) by (simp add: add.assoc)
  ultimately show ?case by blast
qed

lemma shift_spectrum_in_range:
  assumes "0 < ratio" "\<not> float_overflow (real (length spectrum - 1) / ratio)"
  shows "\<exists>new_spectrum.
           shift_spectrum ratio spectrum = Inr new_spectrum \<and>
           length new_spectrum = length spectrum \<and>
           (\<forall>j<length spectrum.
              new_spectrum ! j =
                (\<Sum>i | i < length spectrum \<and> \<lfloor>real i / ratio\<rfloor> = int j. spectrum ! i))"
proof -
  have ok: "\<forall>i\<in>set [0..<length spectrum]. \<not> float_overflow (real i / ratio)"
  proof
    fix i assume "i \<in> set [0..<length spectrum]"
    then have "real i \<le> real (length spectrum - 1)" by auto
    then have "\<bar>real i / ratio\<bar> \<le> \<bar>real (length spectrum - 1) / ratio\<bar>"
      using assms(1) by (simp add: divide_right_mono)
    with assms(2) show "\<not> float_overflow (real i / ratio)"
      using float_overflow_mono by blast
  qed
  from shift_bins_in_range [OF assms(1) ok, of spectrum "replicate (length spectrum) 0"]
  obtain new_spectrum where new: "shift_spectrum ratio spectrum = Inr new_spectrum"
    "length new_spectrum = length spectrum"
    "\<forall>j<length spectrum.
       new_spectrum ! j =
         (\<Sum>i\<leftarrow>filter (\<lambda>i. \<lfloor>real i / ratio\<rfloor> = int j) [0..<length spectrum]. spectrum ! i)"
    by (auto simp add: shift_spectrum_def)
  have "new_spectrum ! j = (\<Sum>i | i < length spectrum \<and> \<lfloor>real i / ratio\<rfloor> = int j. spectrum ! i)"
    if "j < length spectrum" for j
  proof -
    let ?hit = "\<lambda>i. \<lfloor>real i / ratio\<rfloor> = int j"
    from new(3) that have "new_spectrum ! j =
        (\<Sum>i\<leftarrow>filter ?hit [0..<length spectrum]. spectrum ! i)"
      by simp
    also have "\<dots> = sum (\<lambda>i. spectrum ! i) (set (filter ?hit [0..<length spectrum]))"
      by (rule sum_list_distinct_conv_sum_set) simp
    also have "set (filter ?hit [0..<length spectrum]) = {i. i < length spectrum \<and> ?hit i}"
      by auto
    finally show ?thesis .
  qed
  with new(1,2) show ?thesis by blast
qed

text \<open>The loop outside the float range: it raises at the first bin that does not fit.\<close>

lemma shift_bins_zero_ratio:
  "is \<noteq> [] \<Longrightarrow> shift_bins 0 spectrum new_spectrum is = Inl ZeroDivisionError"
  by (cases "is") (simp_all add: shift_bin_def py_truediv_def)

lemma shift_bins_overflow:
  assumes "0 < ratio" "\<exists>i\<in>set is. float_overflow (real i / ratio)"
  shows "shift_bins ratio spectrum new_spectrum is = Inl OverflowError"
  using assms(2)
proof (induction "is" arbitrary: new_spectrum)
  case Nil
  then show ?case by simp
next
  case (Cons i rest)
  show ?case
  proof (cases "float_overflow (real i / ratio)")
    case True
    with assms(1) show ?thesis
      by (simp add: shift_bin_def py_truediv_def py_int_def)
  next
    case False
    from shift_bin_in_range [OF assms(1) False, of spectrum new_spectrum]
    obtain mid where mid: "shift_bin ratio spectrum new_spectrum i = Inr mid"
      by blast
    from Cons.prems False have "\<exists>i\<in>set rest. float_overflow (real i / ratio)"
      by simp
    from Cons.IH [OF this, of mid] mid show ?thesis
      by simp
  qed
qed


lemma pitch_shift_fast_zero_ratio:
  assumes "audio \<noteq> []" "semitones / 12 \<le> - 1075"
  shows "pitch_shift_fast audio semitones = Inl ZeroDivisionError"
proof -
  from assms(1) obtain spectrum where spectrum: "rfft audio = Inr spectrum"
    "length spectrum = length audio div 2 + 1"
    using rfft_Inr by blast
  then have "[0..<length spectrum] \<noteq> []" by simp
  then have "shift_spectrum 0 spectrum = Inl ZeroDivisionError"
    unfolding shift_spectrum_def by (rule shift_bins_zero_ratio)
  moreover from assms(2) have "\<not> \<bar>semitones\<bar> < 0.1" by simp
  ultimately show ?thesis
    using assms(2) spectrum(1) by (simp add: pitch_shift_fast_def py_pow2_def)
qed

lemma pitch_shift_fast_quotient_overflow:
  assumes "audio \<noteq> []" "0.1 \<le> \<bar>semitones\<bar>" "- 1075 < semitones / 12" "semitones / 12 < 1024"
    and "float_overflow (real (length audio div 2) / 2 powr (semitones / 12))"
  shows "pitch_shift_fast audio semitones = Inl OverflowError"
proof -
  let ?ratio = "2 powr (semitones / 12)"
  from assms(1) obtain spectrum where spectrum: "rfft audio = Inr spectrum"
    "length spectrum = length audio div 2 + 1"
    using rfft_Inr by blast
  have "length audio div 2 \<in> set [0..<length spectrum]"
    by (simp add: spectrum(2))
  with assms(5) have "\<exists>i\<in>set [0..<length spectrum]. float_overflow (real i / ?ratio)"
    by blast
  then have "shift_spectrum ?ratio spectrum = Inl OverflowError"
    unfolding shift_spectrum_def by (intro shift_bins_overflow) simp_all
  then show ?thesis
    using assms(2,3,4) spectrum(1) by (simp add: pitch_shift_fast_def py_pow2_def)
qed

text \<open>
  C6, as stated, fails at extreme pitch: on a block of 256 samples at 12288 semitones the
  ratio \<^verbatim>\<open>2.0 ** 1024.0\<close> overflows and the function raises before any spectrum is
  built.
\<close>

theorem pitch_shift_spectrum_counterexample:
  "(0.1 :: real) \<le> \<bar>12288\<bar> \<and> pitch_shift_fast (replicate 256 1) 12288 = Inl OverflowError"
  by (simp add: pitch_shift_fast_overflow)

text \<open>
  C6, amended: for a non-empty block and \<open>\<bar>semitones\<bar> \<ge> 0.1\<close> with the pitch in the float
  range, the forward transform has \<open>N div 2 + 1\<close> bins, and the new spectrum built from it
  has the same size; its bin \<open>j\<close> is the sum of all source bins \<open>i\<close> with
  \<open>\<lfloor>i / 2 powr (semitones / 12)\<rfloor> = j\<close>, so colliding source bins add up and a bin that no
  source bin maps to is zero; the result of the function is the inverse transform of that
  spectrum, renormalised. Outside the float range no spectrum is built: the function
  raises \<^verbatim>\<open>OverflowError\<close> when the ratio or a quotient overflows, and
  \<^verbatim>\<open>ZeroDivisionError\<close> when the ratio has underflowed to zero.
\<close>

theorem pitch_shift_spectrum:
  assumes "audio \<noteq> []" and "0.1 \<le> \<bar>semitones\<bar>"
  shows "(pitch_in_range (length audio) semitones \<longrightarrow>
            (\<exists>spectrum new_spectrum.
               rfft audio = Inr spectrum \<and> length spectrum = length audio div 2 + 1 \<and>
               shift_spectrum (2 powr (semitones / 12)) spectrum = Inr new_spectrum \<and>
               length new_spectrum = length spectrum \<and>
               (\<forall>j<length spectrum.
                  new_spectrum ! j =
                    (\<Sum>i | i < length spectrum \<and> \<lfloor>real i / 2 powr (semitones / 12)\<rfloor> = int j.
                        spectrum ! i)) \<and>
               (\<forall>j<length spectrum.
                  (\<forall>i<length spectrum. \<lfloor>real i / 2 powr (semitones / 12)\<rfloor> \<noteq> int j) \<longrightarrow>
                  new_spectrum ! j = 0) \<and>
               pitch_shift_fast audio semitones =
                 (case irfft new_spectrum (length audio) of
                    Inl e \<Rightarrow> Inl e
                  | Inr shifted \<Rightarrow> normalize_peak audio shifted))) \<and>
         (1024 \<le> semitones / 12 \<longrightarrow> pitch_shift_fast audio semitones = Inl OverflowError) \<and>
         (semitones / 12 \<le> - 1075 \<longrightarrow> pitch_shift_fast audio semitones = Inl ZeroDivisionError) \<and>
         (- 1075 < semitones / 12 \<and> semitones / 12 < 1024 \<and>
          float_overflow (real (length audio div 2) / 2 powr (semitones / 12)) \<longrightarrow>
            pitch_shift_fast audio semitones = Inl OverflowError)"
proof (intro conjI impI)
  let ?ratio = "2 powr (semitones / 12)"
  assume range: "pitch_in_range (length audio) semitones"
  from assms(1) obtain spectrum where spectrum: "rfft audio = Inr spectrum"
    and len: "length spectrum = length audio div 2 + 1"
    using rfft_Inr by blast
  from range len have "\<not> float_overflow (real (length spectrum - 1) / ?ratio)"
    by (simp add: pitch_in_range_def)
  from shift_spectrum_in_range [OF _ this]
  obtain new_spectrum where new: "shift_spectrum ?ratio spectrum = Inr new_spectrum"
    "length new_spectrum = length spectrum"
    and bins: "\<forall>j<length spectrum.
       new_spectrum ! j = (\<Sum>i | i < length spectrum \<and> \<lfloor>real i / ?ratio\<rfloor> = int j. spectrum ! i)"
    by auto
  have unhit: "\<forall>j<length spectrum.
      (\<forall>i<length spectrum. \<lfloor>real i / ?ratio\<rfloor> \<noteq> int j) \<longrightarrow> new_spectrum ! j = 0"
  proof (intro allI impI)
    fix j assume j: "j < length spectrum" and none: "\<forall>i<length spectrum. \<lfloor>real i / ?ratio\<rfloor> \<noteq> int j"
    from none have "{i. i < length spectrum \<and> \<lfloor>real i / ?ratio\<rfloor> = int j} = {}"
      by auto
    then have "(\<Sum>i | i < length spectrum \<and> \<lfloor>real i / ?ratio\<rfloor> = int j. spectrum ! i) = 0"
      by (simp only: sum.empty)
    with bins j show "new_spectrum ! j = 0" by simp
  qed
  have result: "pitch_shift_fast audio semitones =
      (case irfft new_spectrum (length audio) of
         Inl e \<Rightarrow> Inl e
       | Inr shifted \<Rightarrow> normalize_peak audio shifted)"
    using assms(2) range spectrum new(1)
    by (simp add: pitch_shift_fast_def pitch_in_range_def py_pow2_def)
  from spectrum len new bins unhit result
  show "\<exists>spectrum new_spectrum.
      rfft audio = Inr spectrum \<and> length spectrum = length audio div 2 + 1 \<and>
      shift_spectrum ?ratio spectrum = Inr new_spectrum \<and>
      length new_spectrum = length spectrum \<and>
      (\<forall>j<length spectrum.
         new_spectrum ! j =
           (\<Sum>i | i < length spectrum \<and> \<lfloor>real i / ?ratio\<rfloor> = int j. spectrum ! i)) \<and>
      (\<forall>j<length spectrum.
         (\<forall>i<length spectrum. \<lfloor>real i / ?ratio\<rfloor> \<noteq> int j) \<longrightarrow> new_spectrum ! j = 0) \<and>
      pitch_shift_fast audio semitones =
        (case irfft new_spectrum (length audio) of
           Inl e \<Rightarrow> Inl e
         | Inr shifted \<Rightarrow> normalize_peak audio shifted)"
    by blast
next
  assume "1024 \<le> semitones / 12"
  then show "pitch_shift_fast audio semitones = Inl OverflowError"
    by (rule pitch_shift_fast_overflow)
next
  assume "semitones / 12 \<le> - 1075"
  with assms(1) show "pitch_shift_fast audio semitones = Inl ZeroDivisionError"
    by (rule pitch_shift_fast_zero_ratio)
next
  assume "- 1075 < semitones / 12 \<and> semitones / 12 < 1024 \<and>
    float_overflow (real (length audio div 2) / 2 powr (semitones / 12))"
  with assms show "pitch_shift_fast audio semitones = Inl OverflowError"
    by (intro pitch_shift_fast_quotient_overflow) simp_all
qed


theorem pitch_shift_spectrum_witness:
  "[1, 0, 0, 0 :: real] \<noteq> [] \<and> 0.1 \<le> \<bar>12 :: real\<bar> \<and>
   pitch_in_range (length [1, 0, 0, 0 :: real]) 12 \<and>
   (\<exists>spectrum new_spectrum.
      rfft [1, 0, 0, 0] = Inr spectrum \<and>
      length spectrum = length [1, 0, 0, 0 :: real] div 2 + 1 \<and>
      shift_spectrum (2 powr (12 / 12)) spectrum = Inr new_spectrum \<and>
      length new_spectrum = length spectrum \<and>
      (\<forall>j<length spectrum.
         new_spectrum ! j =
           (\<Sum>i | i < length spectrum \<and> \<lfloor>real i / 2 powr (12 / 12)\<rfloor> = int j. spectrum ! i)) \<and>
      (\<forall>j<length spectrum.
         (\<forall>i<length spectrum. \<lfloor>real i / 2 powr (12 / 12)\<rfloor> \<noteq> int j) \<longrightarrow>
         new_spectrum ! j = 0) \<and>
      pitch_shift_fast [1, 0, 0, 0] 12 =
        (case irfft new_spectrum (length [1, 0, 0, 0 :: real]) of
           Inl e \<Rightarrow> Inl e
         | Inr shifted \<Rightarrow> normalize_peak [1, 0, 0, 0] shifted)) \<and>
   replicate 256 (1 :: real) \<noteq> [] \<and> 0.1 \<le> \<bar>12288 :: real\<bar> \<and> (1024 :: real) \<le> 12288 / 12 \<and>
   pitch_shift_fast (replicate 256 1) 12288 = Inl OverflowError \<and>
   0.1 \<le> \<bar>- 12900 :: real\<bar> \<and> (- 12900 :: real) / 12 \<le> - 1075 \<and>
   pitch_shift_fast (replicate 256 1) (- 12900) = Inl ZeroDivisionError \<and>
   0.1 \<le> \<bar>- 12288 :: real\<bar> \<and> (- 1075 :: real) < - 12288 / 12 \<and> (- 12288 :: real) / 12 < 1024 \<and>
   float_overflow (real (length (replicate 256 (1 :: real)) div 2) / 2 powr (- 12288 / 12)) \<and>
   pitch_shift_fast (replicate 256 1) (- 12288) = Inl OverflowError"
proof -
  have block: "[1, 0, 0, 0 :: real] \<noteq> []" by simp
  have pitch: "0.1 \<le> \<bar>12 :: real\<bar>" by simp
  have range: "pitch_in_range (length [1, 0, 0, 0 :: real]) 12"
    by (rule pitch_in_range_moderate) simp_all
  note built = mp [OF conjunct1 [OF pitch_shift_spectrum [OF block pitch] ] range]
  have block256: "replicate 256 (1 :: real) \<noteq> []" by simp
  have up: "0.1 \<le> \<bar>12288 :: real\<bar>" "(1024 :: real) \<le> 12288 / 12" by simp_all
  have down: "0.1 \<le> \<bar>- 12900 :: real\<bar>" "(- 12900 :: real) / 12 \<le> - 1075" by simp_all
  have low: "0.1 \<le> \<bar>- 12288 :: real\<bar>" "(- 1075 :: real) < - 12288 / 12"
    "(- 12288 :: real) / 12 < 1024" by simp_all
  define P :: real where "P = 2 ^ 1024"
  have P: "0 < P" by (simp add: P_def)
  have ratio: "(2 :: real) powr (- 12288 / 12) = 1 / P"
    unfolding P_def by (simp add: powr_minus_divide powr_realpow [symmetric] del: powr_realpow)
  have bins: "real (length (replicate 256 (1 :: real)) div 2) = 128" by simp
  have "P \<le> 128 * P" using P by simp
  then have "P \<le> \<bar>128 / (1 / P)\<bar>" using P by simp
  then have "float_overflow (128 / (1 / P))"
    by (rule float_overflow_above [folded P_def])
  then have quotient:
    "float_overflow (real (length (replicate 256 (1 :: real)) div 2) / 2 powr (- 12288 / 12))"
    by (simp only: bins ratio)
  from pitch_shift_spectrum [OF block256 up(1)] up(2)
  have raised_up: "pitch_shift_fast (replicate 256 1) 12288 = Inl OverflowError"
    by blast
  from pitch_shift_spectrum [OF block256 down(1)] down(2)
  have raised_down: "pitch_shift_fast (replicate 256 1) (- 12900) = Inl ZeroDivisionError"
    by blast
  from pitch_shift_spectrum [OF block256 low(1)] low(2,3) quotient
  have raised_low: "pitch_shift_fast (replicate 256 1) (- 12288) = Inl OverflowError"
    by blast
  from block pitch range built block256 up raised_up down raised_down low quotient raised_low
  show ?thesis
    by (intro conjI)
qed


subsection \<open>The pitch shifter: silence\<close>

lemma sum_list_all_zero:
  fixes f :: "'a \<Rightarrow> 'b :: comm_monoid_add"
  shows "(\<And>x. x \<in> set xs \<Longrightarrow> f x = 0) \<Longrightarrow> (\<Sum>x\<leftarrow>xs. f x) = 0"
  by (induction xs) simp_all

lemma rfft_zeros:
  assumes "0 < n"
  shows "rfft (replicate n 0) = Inr (replicate (n div 2 + 1) 0)"
proof -
  have "(\<Sum>t\<leftarrow>[0..<n]. complex_of_real (replicate n 0 ! t) * cis (- 2 * pi * real k * real t / real n)) = 0"
    for k
    by (rule sum_list_all_zero) simp
  then show ?thesis
    using assms by (simp add: rfft_def map_replicate_const)
qed

lemma shift_spectrum_zeros:
  assumes "0 < ratio" "\<not> float_overflow (real (m - 1) / ratio)"
  shows "shift_spectrum ratio (replicate m 0) = Inr (replicate m 0)"
proof -
  from shift_spectrum_in_range [of ratio "replicate m 0"] assms
  obtain new_spectrum where new: "shift_spectrum ratio (replicate m 0) = Inr new_spectrum"
    "length new_spectrum = m"
    "\<forall>j<m. new_spectrum ! j =
       (\<Sum>i | i < m \<and> \<lfloor>real i / ratio\<rfloor> = int j. replicate m (0 :: complex) ! i)"
    by auto
  have "new_spectrum ! j = 0" if "j < m" for j
  proof -
    have "(\<Sum>i | i < m \<and> \<lfloor>real i / ratio\<rfloor> = int j. replicate m (0 :: complex) ! i) = 0"
      by (rule sum.neutral) simp
    with new(3) that show ?thesis by simp
  qed
  with new(2) have "new_spectrum = replicate m 0"
    by (intro nth_equalityI) simp_all
  with new(1) show ?thesis by simp
qed

lemma irfft_zeros:
  assumes "0 < n"
  shows "irfft (replicate (n div 2 + 1) 0) n = Inr (replicate n 0)"
proof -
  define m where "m = n div 2 + 1"
  have b: "take m (replicate m (0 :: complex) @ replicate m 0) = replicate m 0"
    by simp
  have nyquist: "n div 2 < m" and dc: "0 < m"
    by (simp_all add: m_def)
  have inner: "k < m" if "k \<in> set [1..<(n + 1) div 2]" for k
    using that by (auto simp add: m_def)
  have harmonics: "(\<Sum>k\<leftarrow>[1..<(n + 1) div 2].
          2 * Re (replicate m 0 ! k * cis (2 * pi * real k * real t / real n))) = 0" for t
    by (rule sum_list_all_zero) (simp add: inner)
  have sample: "(Re (replicate m 0 ! 0)
        + (\<Sum>k\<leftarrow>[1..<(n + 1) div 2].
             2 * Re (replicate m 0 ! k * cis (2 * pi * real k * real t / real n)))
        + (if even n then Re (replicate m 0 ! (n div 2)) * (- 1) ^ t else 0)) / real n = 0" for t
    unfolding harmonics using nyquist dc by simp
  have "irfft (replicate m 0) n =
      Inr (map (\<lambda>t. (Re (replicate m 0 ! 0)
        + (\<Sum>k\<leftarrow>[1..<(n + 1) div 2].
             2 * Re (replicate m 0 ! k * cis (2 * pi * real k * real t / real n)))
        + (if even n then Re (replicate m 0 ! (n div 2)) * (- 1) ^ t else 0)) / real n) [0..<n])"
    using assms unfolding irfft_def Let_def m_def [symmetric] b by simp
  also have "\<dots> = Inr (map (\<lambda>t. 0) [0..<n])"
    by (simp only: sample)
  also have "\<dots> = Inr (replicate n 0)"
    by (simp add: map_replicate_const)
  finally show ?thesis
    by (simp only: m_def)
qed

lemma np_max_abs_zeros:
  "0 < n \<Longrightarrow> np_max (map abs (replicate n 0)) = Inr 0"
  by (simp add: np_max_def)

lemma all_zero_replicate:
  "(\<forall>x\<in>set xs. x = (0 :: real)) \<Longrightarrow> xs = replicate (length xs) 0"
  by (induction xs) simp_all

text \<open>
  The division of the normalisation is guarded: whatever the blocks, it never divides by
  zero. The only exception the normalisation can raise is that of \<^verbatim>\<open>np.max\<close> on an
  empty array.
\<close>

lemma normalize_peak_error:
  "normalize_peak audio shifted = Inl e \<Longrightarrow> e = ValueError"
  by (auto simp add: normalize_peak_def np_max_def np_divide_def split: if_splits sum.splits)

lemma shift_bin_error:
  "shift_bin ratio spectrum new_spectrum i = Inl e \<Longrightarrow> e = ZeroDivisionError \<or> e = OverflowError"
  by (auto simp add: shift_bin_def py_truediv_def py_int_def split: if_splits sum.splits option.splits)

lemma shift_bins_error:
  "shift_bins ratio spectrum new_spectrum is = Inl e \<Longrightarrow> e = ZeroDivisionError \<or> e = OverflowError"
proof (induction "is" arbitrary: new_spectrum)
  case Nil
  then show ?case by simp
next
  case (Cons i rest)
  then show ?case
    by (cases "shift_bin ratio spectrum new_spectrum i") (auto dest: shift_bin_error)
qed

lemma pitch_shift_fast_error:
  assumes "pitch_shift_fast audio semitones = Inl e"
  shows "e \<noteq> FloatingPointError"
proof
  assume e: "e = FloatingPointError"
  from assms have active: "\<not> \<bar>semitones\<bar> < 0.1"
    by (auto simp add: pitch_shift_fast_def)
  show False
  proof (cases "py_pow2 (semitones / 12)")
    case (Inl e')
    with assms active e show False
      by (auto simp add: pitch_shift_fast_def py_pow2_def split: if_splits)
  next
    case ratio: (Inr ratio)
    show False
    proof (cases "rfft audio")
      case (Inl e')
      with assms active e ratio show False
        by (auto simp add: pitch_shift_fast_def rfft_def split: if_splits)
    next
      case spectrum: (Inr spectrum)
      show False
      proof (cases "shift_spectrum ratio spectrum")
        case (Inl e')
        with assms active ratio spectrum have "e' = e"
          by (simp add: pitch_shift_fast_def)
        with Inl e shift_bins_error [of ratio spectrum _ _ e'] show False
          by (auto simp add: shift_spectrum_def)
      next
        case new: (Inr new_spectrum)
        show False
        proof (cases "irfft new_spectrum (length audio)")
          case (Inl e')
          with assms active e ratio spectrum new show False
            by (auto simp add: pitch_shift_fast_def irfft_def Let_def split: if_splits)
        next
          case (Inr shifted)
          with assms active ratio spectrum new have "normalize_peak audio shifted = Inl e"
            by (simp add: pitch_shift_fast_def)
          with e normalize_peak_error show False
            by blast
        qed
      qed
    qed
  qed
qed


text \<open>
  C8, as stated, fails at extreme pitch: on an all-zero block of 256 samples at 12288
  semitones the function raises instead of returning zeros.
\<close>

theorem pitch_shift_zeros_counterexample:
  "pitch_shift_fast (replicate 256 0) 12288 = Inl OverflowError \<and>
   pitch_shift_fast (replicate 256 0) 12288 \<noteq> Inr (replicate 256 0)"
  by (simp add: pitch_shift_fast_overflow)

text \<open>
  C8, amended: on a non-empty all-zero block the function returns the all-zero block of
  the same length for every \<open>semitones\<close> in the bypass or in the float range. When the
  bypass is not taken, the inverse transform is all zero, its peak is \<open>0\<close>, and the
  normalisation returns it as it is: the branch that divides by the peak is not entered.
  Outside the float range the function raises \<^verbatim>\<open>OverflowError\<close> or
  \<^verbatim>\<open>ZeroDivisionError\<close> while it computes the ratio and the bin indices; in no case
  does the normalisation divide by zero.
\<close>

theorem pitch_shift_zeros:
  assumes "audio \<noteq> []" and "\<forall>x\<in>set audio. x = 0"
  shows "(\<bar>semitones\<bar> < 0.1 \<or> pitch_in_range (length audio) semitones \<longrightarrow>
            pitch_shift_fast audio semitones = Inr (replicate (length audio) 0)) \<and>
         (0.1 \<le> \<bar>semitones\<bar> \<and> pitch_in_range (length audio) semitones \<longrightarrow>
            (\<exists>spectrum new_spectrum shifted.
               rfft audio = Inr spectrum \<and>
               shift_spectrum (2 powr (semitones / 12)) spectrum = Inr new_spectrum \<and>
               irfft new_spectrum (length audio) = Inr shifted \<and>
               np_max (map abs shifted) = Inr 0 \<and>
               normalize_peak audio shifted = Inr shifted \<and>
               pitch_shift_fast audio semitones = Inr shifted)) \<and>
         (0.1 \<le> \<bar>semitones\<bar> \<and> \<not> pitch_in_range (length audio) semitones \<longrightarrow>
            pitch_shift_fast audio semitones = Inl OverflowError \<or>
            pitch_shift_fast audio semitones = Inl ZeroDivisionError) \<and>
         pitch_shift_fast audio semitones \<noteq> Inl FloatingPointError"
proof -
  define n where "n = length audio"
  from assms(2) have audio: "audio = replicate n 0"
    unfolding n_def by (rule all_zero_replicate)
  from assms(1) have n: "0 < n"
    by (simp add: n_def)
  let ?ratio = "2 powr (semitones / 12)"
  have peak: "np_max (map abs (replicate n 0)) = Inr 0"
    using n by (rule np_max_abs_zeros)
  have skip: "normalize_peak (replicate n 0) (replicate n 0) = Inr (replicate n 0)"
    unfolding normalize_peak_def peak by simp
  define m where "m = n div 2 + 1"
  have spectrum: "rfft (replicate n 0) = Inr (replicate m 0)"
    unfolding m_def using n by (rule rfft_zeros)
  have shifted: "irfft (replicate m 0) n = Inr (replicate n 0)"
    unfolding m_def using n by (rule irfft_zeros)
  have in_range: "\<exists>spectrum new_spectrum shifted.
      rfft (replicate n 0) = Inr spectrum \<and>
      shift_spectrum ?ratio spectrum = Inr new_spectrum \<and>
      irfft new_spectrum n = Inr shifted \<and>
      np_max (map abs shifted) = Inr 0 \<and>
      normalize_peak (replicate n 0) shifted = Inr shifted \<and>
      pitch_shift_fast (replicate n 0) semitones = Inr shifted \<and>
      shifted = replicate n 0"
    if active: "0.1 \<le> \<bar>semitones\<bar>" and range: "pitch_in_range n semitones"
  proof -
    from range have "\<not> float_overflow (real (m - 1) / ?ratio)"
      by (simp add: pitch_in_range_def m_def)
    then have new: "shift_spectrum ?ratio (replicate m 0) = Inr (replicate m 0)"
      by (intro shift_spectrum_zeros) simp_all
    from range have ratio: "py_pow2 (semitones / 12) = Inr ?ratio"
      by (simp add: pitch_in_range_def py_pow2_in_range)
    from active have "\<not> \<bar>semitones\<bar> < 0.1" by simp
    then have "pitch_shift_fast (replicate n 0) semitones =
        (case irfft (replicate m 0) n of
           Inl e \<Rightarrow> Inl e
         | Inr shifted \<Rightarrow> normalize_peak (replicate n 0) shifted)"
      by (simp add: pitch_shift_fast_def ratio spectrum new)
    also have "\<dots> = Inr (replicate n 0)"
      by (simp only: shifted sum.case skip)
    finally have "pitch_shift_fast (replicate n 0) semitones = Inr (replicate n 0)" .
    with spectrum new shifted peak skip show ?thesis
      by blast
  qed
  have first: "pitch_shift_fast (replicate n 0) semitones = Inr (replicate n 0)"
    if "\<bar>semitones\<bar> < 0.1 \<or> pitch_in_range n semitones"
  proof (cases "\<bar>semitones\<bar> < 0.1")
    case True
    then show ?thesis by (simp add: pitch_shift_fast_def)
  next
    case False
    with that in_range show ?thesis by auto
  qed
  have second: "\<exists>spectrum new_spectrum shifted.
      rfft (replicate n 0) = Inr spectrum \<and>
      shift_spectrum ?ratio spectrum = Inr new_spectrum \<and>
      irfft new_spectrum n = Inr shifted \<and>
      np_max (map abs shifted) = Inr 0 \<and>
      normalize_peak (replicate n 0) shifted = Inr shifted \<and>
      pitch_shift_fast (replicate n 0) semitones = Inr shifted"
    if "0.1 \<le> \<bar>semitones\<bar> \<and> pitch_in_range n semitones"
    using in_range that by blast
  have third: "pitch_shift_fast (replicate n 0) semitones = Inl OverflowError \<or>
      pitch_shift_fast (replicate n 0) semitones = Inl ZeroDivisionError"
    if out: "0.1 \<le> \<bar>semitones\<bar> \<and> \<not> pitch_in_range n semitones"
  proof -
    have block: "replicate n (0 :: real) \<noteq> []" using n by simp
    show ?thesis
    proof (cases "1024 \<le> semitones / 12")
      case True
      then show ?thesis by (simp add: pitch_shift_fast_overflow)
    next
      case no_overflow: False
      show ?thesis
      proof (cases "semitones / 12 \<le> - 1075")
        case True
        with block show ?thesis by (simp add: pitch_shift_fast_zero_ratio)
      next
        case False
        with no_overflow out have "float_overflow (real (n div 2) / ?ratio)"
          by (simp add: pitch_in_range_def)
        with block out no_overflow False
        have "pitch_shift_fast (replicate n 0) semitones = Inl OverflowError"
          by (intro pitch_shift_fast_quotient_overflow) simp_all
        then show ?thesis by simp
      qed
    qed
  qed
  have fourth: "pitch_shift_fast (replicate n 0) semitones \<noteq> Inl FloatingPointError"
    using pitch_shift_fast_error by blast
  from first second third fourth
  have "(\<bar>semitones\<bar> < 0.1 \<or> pitch_in_range n semitones \<longrightarrow>
            pitch_shift_fast (replicate n 0) semitones = Inr (replicate n 0)) \<and>
         (0.1 \<le> \<bar>semitones\<bar> \<and> pitch_in_range n semitones \<longrightarrow>
            (\<exists>spectrum new_spectrum shifted.
               rfft (replicate n 0) = Inr spectrum \<and>
               shift_spectrum ?ratio spectrum = Inr new_spectrum \<and>
               irfft new_spectrum n = Inr shifted \<and>
               np_max (map abs shifted) = Inr 0 \<and>
               normalize_peak (replicate n 0) shifted = Inr shifted \<and>
               pitch_shift_fast (replicate n 0) semitones = Inr shifted)) \<and>
         (0.1 \<le> \<bar>semitones\<bar> \<and> \<not> pitch_in_range n semitones \<longrightarrow>
            pitch_shift_fast (replicate n 0) semitones = Inl OverflowError \<or>
            pitch_shift_fast (replicate n 0) semitones = Inl ZeroDivisionError) \<and>
         pitch_shift_fast (replicate n 0) semitones \<noteq> Inl FloatingPointError"
    by blast
  then show ?thesis
    unfolding n_def [symmetric] audio [symmetric] .
qed

theorem pitch_shift_zeros_witness:
  "replicate 256 (0 :: real) \<noteq> [] \<and> list_all (\<lambda>x. x = 0) (replicate 256 (0 :: real)) \<and>
   0.1 \<le> \<bar>3 :: real\<bar> \<and> pitch_in_range (length (replicate 256 (0 :: real))) 3 \<and>
   pitch_shift_fast (replicate 256 0) 3 = Inr (replicate 256 0) \<and>
   (\<exists>spectrum new_spectrum shifted.
      rfft (replicate 256 0) = Inr spectrum \<and>
      shift_spectrum (2 powr (3 / 12)) spectrum = Inr new_spectrum \<and>
      irfft new_spectrum 256 = Inr shifted \<and>
      np_max (map abs shifted) = Inr 0 \<and>
      normalize_peak (replicate 256 0) shifted = Inr shifted \<and>
      pitch_shift_fast (replicate 256 0) 3 = Inr shifted) \<and>
   0.1 \<le> \<bar>12288 :: real\<bar> \<and> \<not> pitch_in_range (length (replicate 256 (0 :: real))) 12288 \<and>
   pitch_shift_fast (replicate 256 0) 12288 = Inl OverflowError"
proof -
  have block: "replicate 256 (0 :: real) \<noteq> []" by simp
  have zeros: "\<forall>x\<in>set (replicate 256 (0 :: real)). x = 0" by simp
  have range: "pitch_in_range (length (replicate 256 (0 :: real))) 3"
    by (rule pitch_in_range_moderate) simp_all
  have out: "\<not> pitch_in_range (length (replicate 256 (0 :: real))) 12288"
    by (simp add: pitch_in_range_def)
  have all_zero: "list_all (\<lambda>x. x = 0) (replicate 256 (0 :: real))"
    by (simp add: list_all_iff)
  from pitch_shift_zeros [OF block zeros, of 3] range
    pitch_shift_zeros [OF block zeros, of 12288] out all_zero
  show ?thesis
    by (auto simp add: pitch_shift_fast_overflow)
qed


subsection \<open>The callback: when the processing raises\<close>

lemma normalize_peak_Inr:
  assumes "audio \<noteq> []" "shifted \<noteq> []"
  shows "\<exists>out. normalize_peak audio shifted = Inr out \<and> length out = length shifted"
  using assms by (simp add: normalize_peak_def np_max_def np_divide_def)

lemma pitch_shift_fast_returns:
  assumes "audio \<noteq> []" "\<bar>semitones\<bar> < 0.1 \<or> pitch_in_range (length audio) semitones"
  shows "\<exists>shifted. pitch_shift_fast audio semitones = Inr shifted \<and> length shifted = length audio"
proof (cases "\<bar>semitones\<bar> < 0.1")
  case True
  then show ?thesis by (simp add: pitch_shift_fast_def)
next
  case False
  with assms(2) have range: "pitch_in_range (length audio) semitones" by simp
  let ?ratio = "2 powr (semitones / 12)"
  from range have ratio: "py_pow2 (semitones / 12) = Inr ?ratio"
    by (simp add: pitch_in_range_def py_pow2_in_range)
  from assms(1) obtain spectrum where spectrum: "rfft audio = Inr spectrum"
    "length spectrum = length audio div 2 + 1"
    using rfft_Inr by blast
  from range spectrum(2) have "\<not> float_overflow (real (length spectrum - 1) / ?ratio)"
    by (simp add: pitch_in_range_def)
  from shift_spectrum_in_range [OF _ this]
  obtain new_spectrum where new: "shift_spectrum ?ratio spectrum = Inr new_spectrum"
    by auto
  from assms(1) obtain shifted where shifted:
    "irfft new_spectrum (length audio) = Inr shifted" "length shifted = length audio"
    using irfft_Inr [of "length audio"] by auto
  with assms(1) have "shifted \<noteq> []" by auto
  with assms(1) normalize_peak_Inr [of audio shifted] False ratio spectrum(1) new shifted
  show ?thesis
    by (auto simp add: pitch_shift_fast_def)
qed

lemma pitch_shift_fast_raises:
  assumes "audio \<noteq> []" "0.1 \<le> \<bar>semitones\<bar>" "\<not> pitch_in_range (length audio) semitones"
  shows "\<exists>e. pitch_shift_fast audio semitones = Inl e"
proof (cases "1024 \<le> semitones / 12")
  case True
  then show ?thesis by (simp add: pitch_shift_fast_overflow)
next
  case no_overflow: False
  show ?thesis
  proof (cases "semitones / 12 \<le> - 1075")
    case True
    with assms(1) show ?thesis by (simp add: pitch_shift_fast_zero_ratio)
  next
    case False
    with no_overflow assms(3)
    have "float_overflow (real (length audio div 2) / 2 powr (semitones / 12))"
      by (simp add: pitch_in_range_def)
    with assms(1,2) no_overflow False
    have "pitch_shift_fast audio semitones = Inl OverflowError"
      by (intro pitch_shift_fast_quotient_overflow) simp_all
    then show ?thesis by simp
  qed
qed

lemma apply_robotic_effect_returns:
  assumes "0 \<le> carrier_idx st" "carrier_idx st < carrier_table_size"
    and "carrier_idx st + int (length audio) \<le> 2 * carrier_table_size"
  shows "\<exists>out. snd (apply_robotic_effect st audio intensity) = Inr out \<and> length out = length audio"
proof -
  let ?carrier = "carrier_segment (carrier_idx st) (int (length audio))"
  have "length ?carrier = length audio"
    using assms length_carrier_segment [of "carrier_idx st" "int (length audio)"]
    by (simp add: carrier_table_size_def)
  then show ?thesis
    by (simp add: apply_robotic_effect_def Let_def robotic_stage_def ring_modulate_same_length
        soft_clip_def bit_reduce_def)
qed

text \<open>
  A non-empty block that the carrier read can serve does not raise in the \<^verbatim>\<open>try\<close>
  block when the pitch is bypassed or in the float range.
\<close>

lemma process_block_returns:
  assumes "length mono_in = frames" "0 < frames"
    and "0 \<le> carrier_idx st" "carrier_idx st < carrier_table_size"
    and "carrier_idx st + int frames \<le> 2 * carrier_table_size"
    and "\<bar>current_pitch st\<bar> \<le> 0.1 \<or> pitch_in_range frames (current_pitch st)"
  shows "\<exists>out. snd (process_block st mono_in frames) = Inr out"
proof -
  define shifted where "shifted =
    (if 0.1 < \<bar>current_pitch st\<bar>
     then (case pitch_shift_fast mono_in (current_pitch st) of
             Inl e \<Rightarrow> Inl e
           | Inr shifted \<Rightarrow> Inr (fix_length shifted frames))
     else Inr mono_in)"
  from assms(1,2) have block: "mono_in \<noteq> []" by auto
  have "\<exists>v. shifted = Inr v \<and> length v = frames"
  proof (cases "0.1 < \<bar>current_pitch st\<bar>")
    case True
    with assms(1,6) have "pitch_in_range (length mono_in) (current_pitch st)" by simp
    with block obtain s where "pitch_shift_fast mono_in (current_pitch st) = Inr s"
      using pitch_shift_fast_returns by blast
    with True show ?thesis
      by (simp add: shifted_def length_fix_length)
  next
    case False
    with assms(1) show ?thesis by (simp add: shifted_def)
  qed
  then obtain v where v: "shifted = Inr v" "length v = frames"
    by blast
  obtain st' out where robot:
    "(if robotic_enabled st then apply_robotic_effect st v 0.7 else (st, Inr v)) = (st', Inr out)"
    "length out = frames"
  proof (cases "robotic_enabled st")
    case True
    from apply_robotic_effect_returns [of st v "0.7"] assms v(2)
    obtain out where "snd (apply_robotic_effect st v 0.7) = Inr out" "length out = frames"
      by auto
    with True that [of "fst (apply_robotic_effect st v 0.7)" out] show ?thesis
      by (cases "apply_robotic_effect st v 0.7") auto
  next
    case False
    with that [of st v] v(2) show ?thesis by simp
  qed
  have "snd (process_block st mono_in frames) =
      set_stereo frames (np_clip (map (\<lambda>v. v * 2.2) out) (- 0.95) 0.95)"
    unfolding process_block_def shifted_def [symmetric] v(1) sum.case robot(1) by simp
  also have "\<dots> = Inr (np_clip (map (\<lambda>v. v * 2.2) out) (- 0.95) 0.95,
      np_clip (map (\<lambda>v. v * 2.2) out) (- 0.95) 0.95)"
    by (rule set_stereo_same_length) (simp add: np_clip_def robot(2))
  finally show ?thesis by blast
qed

text \<open>With an active pitch outside the float range the \<^verbatim>\<open>try\<close> block raises.\<close>

lemma process_block_raises:
  assumes "length mono_in = frames" "0 < frames"
    and "0.1 < \<bar>current_pitch st\<bar>" "\<not> pitch_in_range frames (current_pitch st)"
  shows "\<exists>e. snd (process_block st mono_in frames) = Inl e"
proof -
  from assms(1,2) have "mono_in \<noteq> []" by auto
  with assms obtain e where "pitch_shift_fast mono_in (current_pitch st) = Inl e"
    using pitch_shift_fast_raises [of mono_in "current_pitch st"] by auto
  with assms(3) show ?thesis
    by (simp add: process_block_def)
qed


subsection \<open>The callback: output range\<close>

text \<open>
  C1, as stated, fails on the exception path: once the pitch has been raised to 12288
  semitones, the pitch shifter raises on every block, and for one block of the stream's
  size, 256 samples of value \<open>1\<close>, the fallback writes \<open>1.5\<close> to every output sample.
\<close>

theorem engine_output_range_counterexample:
  "snd (audio_callback (initial_state\<lparr>current_pitch := 12288\<rparr>) [replicate 256 1] 256) =
     Inr (replicate 256 1.5, replicate 256 1.5) \<and>
   (1.5 :: real) \<in> set (replicate 256 1.5) \<and> \<not> (1.5 :: real) \<le> 0.95"
  by (simp add: audio_callback_extreme_pitch)

lemma np_clip_bounds:
  "lo \<le> hi \<Longrightarrow> s \<in> set (np_clip xs lo hi) \<Longrightarrow> lo \<le> s \<and> s \<le> hi"
  by (auto simp add: np_clip_def)

lemma process_block_Inr:
  assumes "snd (process_block st mono_in frames) = Inr (c0, c1)"
  shows "length c0 = frames \<and> length c1 = frames \<and>
         (\<forall>s\<in>set c0 \<union> set c1. - 0.95 \<le> s \<and> s \<le> 0.95)"
proof -
  from assms obtain v where "set_stereo frames (np_clip v (- 0.95) 0.95) = Inr (c0, c1)"
    by (auto simp add: process_block_def split: sum.splits prod.splits if_splits)
  from set_stereo_Inr [OF this] np_clip_bounds [of "- 0.95" "0.95" _ v] show ?thesis
    by auto
qed

lemma passthrough_in_range_iff:
  fixes xs :: "real list"
  shows "(\<forall>s\<in>set (map (\<lambda>v. v * 1.5) xs). - 0.95 \<le> s \<and> s \<le> 0.95) \<longleftrightarrow>
         (\<forall>x\<in>set xs. \<bar>x\<bar> \<le> 0.95 / 1.5)"
proof -
  have "(- 0.95 \<le> x * 1.5 \<and> x * 1.5 \<le> 0.95) \<longleftrightarrow> \<bar>x\<bar> \<le> 0.95 / 1.5" for x :: real
    by (simp add: abs_le_iff) linarith
  then show ?thesis
    by simp
qed

text \<open>
  C1, amended. On the muted path and whenever the \<^verbatim>\<open>try\<close> block finishes without
  an exception, the callback writes \<open>frames\<close> samples to each channel and every one of
  them lies in \<open>[-0.95, 0.95]\<close>, for every input and every pitch, robotic and push-to-talk
  setting. When the \<^verbatim>\<open>try\<close> block raises, both channels are the mono input times
  \<open>1.5\<close>, unclipped, and they lie in \<open>[-0.95, 0.95]\<close> exactly when every input sample has
  magnitude at most \<open>0.95 / 1.5\<close>. For a non-empty block that the carrier read can serve,
  the \<^verbatim>\<open>try\<close> block raises exactly when the pitch is active and outside the float
  range of the pitch shifter.
\<close>

theorem engine_output_range:
  "((push_to_talk_enabled st \<and> \<not> is_talking st) \<or>
    (\<exists>out. snd (process_block st (get_mono indata) frames) = Inr out) \<longrightarrow>
      (\<exists>c0 c1. snd (audio_callback st indata frames) = Inr (c0, c1) \<and>
         length c0 = frames \<and> length c1 = frames \<and>
         (\<forall>s\<in>set c0 \<union> set c1. - 0.95 \<le> s \<and> s \<le> 0.95))) \<and>
   (indata_shape indata frames \<and> \<not> (push_to_talk_enabled st \<and> \<not> is_talking st) \<and>
    (\<exists>e. snd (process_block st (get_mono indata) frames) = Inl e) \<longrightarrow>
      snd (audio_callback st indata frames) =
        Inr (map (\<lambda>v. v * 1.5) (get_mono indata), map (\<lambda>v. v * 1.5) (get_mono indata)) \<and>
      ((\<forall>s\<in>set (map (\<lambda>v. v * 1.5) (get_mono indata)). - 0.95 \<le> s \<and> s \<le> 0.95) \<longleftrightarrow>
       (\<forall>x\<in>set (get_mono indata). \<bar>x\<bar> \<le> 0.95 / 1.5))) \<and>
   (indata_shape indata frames \<and> 0 < frames \<and>
    0 \<le> carrier_idx st \<and> carrier_idx st < carrier_table_size \<and>
    carrier_idx st + int frames \<le> 2 * carrier_table_size \<longrightarrow>
      ((\<exists>e. snd (process_block st (get_mono indata) frames) = Inl e) \<longleftrightarrow>
       0.1 < \<bar>current_pitch st\<bar> \<and> \<not> pitch_in_range frames (current_pitch st)))"
proof (intro conjI impI)
  assume ok: "(push_to_talk_enabled st \<and> \<not> is_talking st) \<or>
    (\<exists>out. snd (process_block st (get_mono indata) frames) = Inr out)"
  show "\<exists>c0 c1. snd (audio_callback st indata frames) = Inr (c0, c1) \<and>
      length c0 = frames \<and> length c1 = frames \<and>
      (\<forall>s\<in>set c0 \<union> set c1. - 0.95 \<le> s \<and> s \<le> 0.95)"
  proof (cases "push_to_talk_enabled st \<and> \<not> is_talking st")
    case True
    then show ?thesis
      by (simp add: audio_callback_def)
  next
    case False
    with ok obtain c0 c1 where fin: "snd (process_block st (get_mono indata) frames) = Inr (c0, c1)"
      by auto
    then have "snd (audio_callback st indata frames) = Inr (c0, c1)"
      using False
      by (cases "process_block st (get_mono indata) frames") (auto simp add: audio_callback_def Let_def)
    with process_block_Inr [OF fin] show ?thesis
      by blast
  qed
next
  assume raised: "indata_shape indata frames \<and> \<not> (push_to_talk_enabled st \<and> \<not> is_talking st) \<and>
    (\<exists>e. snd (process_block st (get_mono indata) frames) = Inl e)"
  then obtain e where "snd (process_block st (get_mono indata) frames) = Inl e"
    by blast
  with raised show "snd (audio_callback st indata frames) =
      Inr (map (\<lambda>v. v * 1.5) (get_mono indata), map (\<lambda>v. v * 1.5) (get_mono indata))"
    by (intro audio_callback_on_error [of st indata frames e]) (simp_all add: length_get_mono)
next
  show "(\<forall>s\<in>set (map (\<lambda>v. v * 1.5) (get_mono indata)). - 0.95 \<le> s \<and> s \<le> 0.95) \<longleftrightarrow>
      (\<forall>x\<in>set (get_mono indata). \<bar>x\<bar> \<le> 0.95 / 1.5)"
    by (rule passthrough_in_range_iff)
next
  assume block: "indata_shape indata frames \<and> 0 < frames \<and>
    0 \<le> carrier_idx st \<and> carrier_idx st < carrier_table_size \<and>
    carrier_idx st + int frames \<le> 2 * carrier_table_size"
  then have len: "length (get_mono indata) = frames"
    by (simp add: length_get_mono)
  show "(\<exists>e. snd (process_block st (get_mono indata) frames) = Inl e) \<longleftrightarrow>
      0.1 < \<bar>current_pitch st\<bar> \<and> \<not> pitch_in_range frames (current_pitch st)"
  proof
    assume "\<exists>e. snd (process_block st (get_mono indata) frames) = Inl e"
    then have "\<not> (\<exists>out. snd (process_block st (get_mono indata) frames) = Inr out)"
      by auto
    with process_block_returns [of "get_mono indata" frames st] len block
    have "\<not> (\<bar>current_pitch st\<bar> \<le> 0.1 \<or> pitch_in_range frames (current_pitch st))"
      by blast
    then show "0.1 < \<bar>current_pitch st\<bar> \<and> \<not> pitch_in_range frames (current_pitch st)"
      by simp
  next
    assume "0.1 < \<bar>current_pitch st\<bar> \<and> \<not> pitch_in_range frames (current_pitch st)"
    with len block show "\<exists>e. snd (process_block st (get_mono indata) frames) = Inl e"
      by (intro process_block_raises) simp_all
  qed
qed


theorem engine_output_range_witness:
  "((push_to_talk_enabled initial_state \<and> \<not> is_talking initial_state) \<or>
    (\<exists>out. snd (process_block initial_state (get_mono [replicate 256 1]) 256) = Inr out)) \<and>
   (\<exists>c0 c1. snd (audio_callback initial_state [replicate 256 1] 256) = Inr (c0, c1) \<and>
      length c0 = 256 \<and> length c1 = 256 \<and>
      (\<forall>s\<in>set c0 \<union> set c1. - 0.95 \<le> s \<and> s \<le> 0.95)) \<and>
   indata_shape [replicate 256 1] 256 \<and>
   \<not> (push_to_talk_enabled (initial_state\<lparr>current_pitch := 12288\<rparr>) \<and>
      \<not> is_talking (initial_state\<lparr>current_pitch := 12288\<rparr>)) \<and>
   (\<exists>e. snd (process_block (initial_state\<lparr>current_pitch := 12288\<rparr>)
             (get_mono [replicate 256 1]) 256) = Inl e) \<and>
   snd (audio_callback (initial_state\<lparr>current_pitch := 12288\<rparr>) [replicate 256 1] 256) =
     Inr (replicate 256 1.5, replicate 256 1.5) \<and>
   (0 :: nat) < 256 \<and>
   0 \<le> carrier_idx (initial_state\<lparr>current_pitch := 12288\<rparr>) \<and>
   carrier_idx (initial_state\<lparr>current_pitch := 12288\<rparr>) < carrier_table_size \<and>
   carrier_idx (initial_state\<lparr>current_pitch := 12288\<rparr>) + int 256 \<le> 2 * carrier_table_size \<and>
   0.1 < \<bar>current_pitch (initial_state\<lparr>current_pitch := 12288\<rparr>)\<bar> \<and>
   \<not> pitch_in_range 256 (current_pitch (initial_state\<lparr>current_pitch := 12288\<rparr>))"
proof -
  let ?loud = "initial_state\<lparr>current_pitch := 12288\<rparr>"
  have mono_in: "get_mono [replicate 256 1] = replicate 256 1"
    by (simp add: get_mono_def)
  have "pitch_in_range 256 (current_pitch initial_state)"
    by (rule pitch_in_range_moderate) (simp_all add: initial_state_def PITCH_SHIFT_def)
  then have "\<exists>out. snd (process_block initial_state (get_mono [replicate 256 1]) 256) = Inr out"
    by (intro process_block_returns)
       (simp_all add: mono_in initial_state_def carrier_table_size_def)
  then have ok: "(push_to_talk_enabled initial_state \<and> \<not> is_talking initial_state) \<or>
      (\<exists>out. snd (process_block initial_state (get_mono [replicate 256 1]) 256) = Inr out)"
    by (rule disjI2)
  note bounded = mp [OF conjunct1 [OF engine_output_range [of initial_state "[replicate 256 1]" 256] ] ok]
  have shape: "indata_shape [replicate 256 1] 256"
    by (simp add: indata_shape_def)
  have gate: "\<not> (push_to_talk_enabled ?loud \<and> \<not> is_talking ?loud)"
    by (simp add: initial_state_def)
  have "snd (process_block ?loud (get_mono [replicate 256 1]) 256) = Inl OverflowError"
    by (simp add: process_block_pitch_overflow)
  then have raised: "\<exists>e. snd (process_block ?loud (get_mono [replicate 256 1]) 256) = Inl e"
    by blast
  have cursor: "(0 :: nat) < 256" "0 \<le> carrier_idx ?loud" "carrier_idx ?loud < carrier_table_size"
    "carrier_idx ?loud + int 256 \<le> 2 * carrier_table_size"
    by (simp_all add: initial_state_def carrier_table_size_def)
  from engine_output_range [of ?loud "[replicate 256 1]" 256] shape gate raised
  have "snd (audio_callback ?loud [replicate 256 1] 256) =
      Inr (map (\<lambda>v. v * 1.5) (get_mono [replicate 256 1]),
           map (\<lambda>v. v * 1.5) (get_mono [replicate 256 1]))"
    by blast
  then have fallback: "snd (audio_callback ?loud [replicate 256 1] 256) =
      Inr (replicate 256 1.5, replicate 256 1.5)"
    by (simp add: mono_in)
  from engine_output_range [of ?loud "[replicate 256 1]" 256] shape cursor raised
  have extreme: "0.1 < \<bar>current_pitch ?loud\<bar>" "\<not> pitch_in_range 256 (current_pitch ?loud)"
    by blast+
  from ok bounded shape gate raised fallback cursor extreme show ?thesis
    by (intro conjI)
qed

end
